theory Spec2Isabelle
  imports Complex_Main "HOL-Library.Sublist"
begin

section \<open>Values of the host language\<close>

text \<open>
  The import service is TypeScript running on Node. The embedding keeps the values the
  code really handles:
  \<^item> a field of an input row is a string or \<open>undefined\<close>: \<open>string option\<close>, with
    \<open>None\<close> for \<open>undefined\<close>; a row is the open mapping from field names to strings
    that the CSV parser delivers;
  \<^item> a JavaScript number is kept abstract except for the one distinction the code tests
    (\<open>isNaN\<close>, \<open>!==\<close>): \<open>NaN\<close> against every other number. The finite numbers are
    rationals (every double is one), with \<open>-0\<close> identified with \<open>0\<close> as \<open>!==\<close> does;
  \<^item> strings are lists of 8-bit characters, read as the code points 0..255;
  \<^item> the description of a variant is the one optional string that the code compares
    (\<open>!==\<close>, source line 385), so for it \<open>undefined\<close> and \<open>null\<close> are kept apart: a row
    without the cell gives \<open>undefined\<close>, and the store gives back \<open>null\<close> for a description
    that was written as \<open>undefined\<close> unless the database layer leaves such values out. The
    other optional strings of a variant are only written, never compared; for them
    \<open>None\<close> stands for a missing string of either kind.
  Record fields carry a prefix naming their record (\<open>v_\<close> variant, \<open>p_\<close> product, ...),
  since the source reuses \<open>id\<close>, \<open>name\<close>, \<open>description\<close> and \<open>images\<close> across its objects.
\<close>

type_synonym row = "string \<rightharpoonup> string"

datatype number = NaN | Num rat | PosInfinity | NegInfinity

text \<open>\<open>a !== b\<close> on numbers: \<open>NaN\<close> is unequal to everything, itself included.\<close>

definition strict_neq_number :: "number \<Rightarrow> number \<Rightarrow> bool" where
  "strict_neq_number a b = (a = NaN \<or> b = NaN \<or> a \<noteq> b)"

definition isNaN :: "number \<Rightarrow> bool" where
  "isNaN x = (x = NaN)"

text \<open>\<open>!x\<close> on a string-or-undefined value: \<open>undefined\<close> and the empty string are falsy.\<close>

definition falsy :: "string option \<Rightarrow> bool" where
  "falsy v = (case v of None \<Rightarrow> True | Some s \<Rightarrow> s = [])"

text \<open>\<open>x || d\<close> with a string default, and \<open>x || null\<close>.\<close>

definition or_else :: "string option \<Rightarrow> string \<Rightarrow> string" where
  "or_else v d = (if falsy v then d else the v)"

definition or_null :: "string option \<Rightarrow> string option" where
  "or_null v = (if falsy v then None else v)"

text \<open>\<open>xs || []\<close> on a list-valued field.\<close>

definition or_empty :: "'a list option \<Rightarrow> 'a list" where
  "or_empty v = (case v of None \<Rightarrow> [] | Some xs \<Rightarrow> xs)"

text \<open>\<open>ToString\<close>, as applied by a template literal and by \<open>parseInt\<close>/\<open>parseFloat\<close>.\<close>

definition ToString :: "string option \<Rightarrow> string" where
  "ToString v = (case v of None \<Rightarrow> ''undefined'' | Some s \<Rightarrow> s)"

text \<open>
  A value that is \<open>undefined\<close>, \<open>null\<close> or a string; \<open>!==\<close> tells the three apart. The
  cell of a row is a string or \<open>undefined\<close>.
\<close>

datatype jsstring = Undefined | Null | Str string

definition cell :: "string option \<Rightarrow> jsstring" where
  "cell v = (case v of None \<Rightarrow> Undefined | Some s \<Rightarrow> Str s)"

subsection \<open>\<open>parseInt(value, 10)\<close>\<close>

text \<open>
  ECMAScript \<open>parseInt\<close> with radix 10: the argument is converted to a string, leading
  white space is dropped, one sign is read, and the longest prefix of decimal digits is
  the number; the rest of the string is ignored. No digit at all gives \<open>NaN\<close>, which is
  \<open>None\<close> here. The result is the mathematical integer: rounding it to a double changes
  neither its sign nor whether it is zero, and these are all that \<open>parsed > 0\<close> reads.
\<close>

definition isStrWhiteSpaceChar :: "char \<Rightarrow> bool" where
  "isStrWhiteSpaceChar c = (of_char c \<in> {9, 10, 11, 12, 13, 32, 160 :: nat})"

definition isDecimalDigit :: "char \<Rightarrow> bool" where
  "isDecimalDigit c = (48 \<le> (of_char c :: nat) \<and> (of_char c :: nat) \<le> 57)"

definition digits_value :: "string \<Rightarrow> int" where
  "digits_value ds = foldl (\<lambda>a c. 10 * a + (int (of_char c) - 48)) 0 ds"

definition parseInt10 :: "string option \<Rightarrow> int option" where
  "parseInt10 v =
     (let S = dropWhile isStrWhiteSpaceChar (ToString v);
          sign = (case S of c # _ \<Rightarrow> if c = CHR ''-'' then -1 else 1 | [] \<Rightarrow> (1::int));
          S' = (case S of c # r \<Rightarrow> if c = CHR ''-'' \<or> c = CHR ''+'' then r else S | [] \<Rightarrow> S);
          Z = takeWhile isDecimalDigit S'
      in if Z = [] then None else Some (sign * digits_value Z))"

text \<open>\<open>parseBoolean\<close> (source lines 435-438): \<open>!isNaN(parsed) && parsed > 0\<close>.\<close>

definition parseBoolean :: "string option \<Rightarrow> bool" where
  "parseBoolean v = (case parseInt10 v of None \<Rightarrow> False | Some parsed \<Rightarrow> parsed > 0)"

section \<open>The data model\<close>

record image =
  im_fileName :: string
  im_cdnLink :: "string option"
  im_i :: nat
  im_alt :: "string option"

record attributes =
  a_packaging :: "string option"
  a_description :: "string option"

record variant =
  v_id :: string
  v_available :: bool
  v_attributes :: attributes
  v_cost :: number
  v_currency :: string
  v_description :: jsstring
  v_manufacturerItemCode :: "string option"
  v_manufacturerItemId :: "string option"
  v_packaging :: "string option"
  v_price :: number
  v_optionName :: string
  v_optionsPath :: string
  v_optionItemsPath :: string
  v_sku :: string
  v_active :: bool
  v_images :: "image list"
  v_itemCode :: "string option"

record option_value =
  ov_id :: string
  ov_name :: "string option"
  ov_value :: "string option"

record option_def =
  o_id :: string
  o_name :: string
  o_dataField :: "string option"
  o_values :: "option_value list"

record info =
  i_transactionId :: string
  i_skipEvent :: bool
  i_userRequestId :: string

datatype plain_object = EmptyObject

text \<open>
  A product document. The schema file of the product collection is not part of the
  sources at hand, so the fields are the ones \<open>processChunk\<close> reads and writes, each
  typed by what the code stores in it; \<open>None\<close> is a field that is absent, \<open>undefined\<close> or
  \<open>null\<close> (the code only ever tests such a field for truthiness).
\<close>

record product =
  p_docId :: "string option"
  p_productID :: "string option"
  p_name :: "string option"
  p_description :: "string option"
  p_vendorId :: "string option"
  p_manufacturerId :: "string option"
  p_storefrontPriceVisibility :: "string option"
  p_variants :: "variant list option"
  p_options :: "option_def list option"
  p_availability :: "string option"
  p_isFragile :: "bool option"
  p_published :: "string option"
  p_isTaxable :: "bool option"
  p_images :: "image list option"
  p_categoryId :: "string option"
  p_dataPublic :: "plain_object option"
  p_immutable :: "bool option"
  p_deploymentId :: "string option"
  p_docType :: "string option"
  p_namespace :: "string option"
  p_companyId :: "string option"
  p_status :: "string option"
  p_info :: "info option"

record vendor =
  vn_vendorId :: "string option"
  vn_siteSource :: "string option"
  vn_name :: "string option"

record manufacturer =
  m_manufacturerId :: "string option"
  m_name :: "string option"

section \<open>Store instructions, environment and state\<close>

text \<open>
  One assignment of a \<open>$set\<close> or \<open>$setOnInsert\<close> part of an update: the field it names
  and the value it carries (\<open>None\<close> when the source expression was \<open>undefined\<close>). Every
  field of a product document can be named, the document id included, so that whether an
  update names it is a fact about the code and not about the type.
\<close>

datatype assign =
    Set_docId "string option"
  | Set_productID "string option"
  | Set_name "string option"
  | Set_description "string option"
  | Set_vendorId "string option"
  | Set_manufacturerId "string option"
  | Set_storefrontPriceVisibility "string option"
  | Set_variants "variant list option"
  | Set_options "option_def list option"
  | Set_availability "string option"
  | Set_isFragile "bool option"
  | Set_published "string option"
  | Set_isTaxable "bool option"
  | Set_images "image list option"
  | Set_categoryId "string option"
  | Set_dataPublic "plain_object option"
  | Set_immutable "bool option"
  | Set_deploymentId "string option"
  | Set_docType "string option"
  | Set_namespace "string option"
  | Set_companyId "string option"
  | Set_status "string option"
  | Set_info "info option"

fun field_name :: "assign \<Rightarrow> string" where
  "field_name (Set_docId _) = ''docId''"
| "field_name (Set_productID _) = ''productID''"
| "field_name (Set_name _) = ''name''"
| "field_name (Set_description _) = ''description''"
| "field_name (Set_vendorId _) = ''vendorId''"
| "field_name (Set_manufacturerId _) = ''manufacturerId''"
| "field_name (Set_storefrontPriceVisibility _) = ''storefrontPriceVisibility''"
| "field_name (Set_variants _) = ''variants''"
| "field_name (Set_options _) = ''options''"
| "field_name (Set_availability _) = ''availability''"
| "field_name (Set_isFragile _) = ''isFragile''"
| "field_name (Set_published _) = ''published''"
| "field_name (Set_isTaxable _) = ''isTaxable''"
| "field_name (Set_images _) = ''images''"
| "field_name (Set_categoryId _) = ''categoryId''"
| "field_name (Set_dataPublic _) = ''dataPublic''"
| "field_name (Set_immutable _) = ''immutable''"
| "field_name (Set_deploymentId _) = ''deploymentId''"
| "field_name (Set_docType _) = ''docType''"
| "field_name (Set_namespace _) = ''namespace''"
| "field_name (Set_companyId _) = ''companyId''"
| "field_name (Set_status _) = ''status''"
| "field_name (Set_info _) = ''info''"

text \<open>The element pushed on \<open>bulkOps\<close>: \<open>{updateOne: {filter, update, upsert}}\<close>.\<close>

record updateOne =
  uo_filter_productID :: string
  uo_set :: "assign list"
  uo_setOnInsert :: "assign list option"
  uo_upsert :: bool

text \<open>The round trips to the persistent store, in the order the code awaits them.\<close>

datatype store_call =
    ProductFind "string list"
  | ProductBulkWrite "updateOne list"
  | VendorFindOne "string option"
  | VendorSave vendor
  | ManufacturerFindOne "string option"
  | ManufacturerSave manufacturer

datatype error = TypeError string | StoreError string | StreamError string

fun message :: "error \<Rightarrow> string" where
  "message (TypeError m) = m"
| "message (StoreError m) = m"
| "message (StreamError m) = m"

datatype log_entry = LogInfo string | LogWarn string | LogError string

text \<open>
  What the code takes from outside and cannot be read off the sources: the library
  function \<open>parseFloat\<close>, the strings \<open>nanoid()\<close> returns (the \<open>n\<close>-th call of a run
  returns \<open>nanoid_at n\<close>), which round trips to the store fail (\<open>outage k\<close>: the \<open>k\<close>-th
  call raises), and whether the database layer leaves an \<open>undefined\<close> value of a \<open>$set\<close>
  out of the update or stores it as \<open>null\<close>. Every theorem below holds for each choice
  of these unless it says otherwise.
\<close>

record env =
  parseFloat :: "string \<Rightarrow> number"
  nanoid_at :: "nat \<Rightarrow> string"
  outage :: "nat \<Rightarrow> bool"
  omitUndefined :: bool

text \<open>
  The state a run works on: the three collections of the persistent store, the two
  caches the service object declares (source lines 39-40), the number of identifiers
  drawn, the round trips made so far and the logger's output.
\<close>

record state =
  products :: "product list"
  vendors :: "vendor list"
  manufacturers :: "manufacturer list"
  vendorCache :: "(string \<times> string) list"
  manufacturerCache :: "(string \<times> string) list"
  ids_drawn :: nat
  calls :: "store_call list"
  logged :: "log_entry list"

text \<open>
  An asynchronous method, run on its own, is a function from the state to its result
  and the state it leaves: a thrown error (a rejected promise) is \<open>Inl\<close>, and the state
  comes back in both cases, since a failure rolls nothing back. What another handler
  does to the store while the method awaits is not part of it.
\<close>

type_synonym 'a action = "state \<Rightarrow> (error + 'a) \<times> state"

definition returnA :: "'a \<Rightarrow> 'a action" where
  "returnA x = (\<lambda>s. (Inr x, s))"

definition throwA :: "error \<Rightarrow> 'a action" where
  "throwA e = (\<lambda>s. (Inl e, s))"

definition bindA :: "'a action \<Rightarrow> ('a \<Rightarrow> 'b action) \<Rightarrow> 'b action" where
  "bindA m f = (\<lambda>s. case m s of (Inl e, s') \<Rightarrow> (Inl e, s') | (Inr x, s') \<Rightarrow> f x s')"

definition catchA :: "'a action \<Rightarrow> (error \<Rightarrow> 'a action) \<Rightarrow> 'a action" where
  "catchA m h = (\<lambda>s. case m s of (Inl e, s') \<Rightarrow> h e s' | (Inr x, s') \<Rightarrow> (Inr x, s'))"

fun foldA :: "('b \<Rightarrow> 'a \<Rightarrow> 'b action) \<Rightarrow> 'b \<Rightarrow> 'a list \<Rightarrow> 'b action" where
  "foldA f acc [] = returnA acc"
| "foldA f acc (x # xs) = bindA (f acc x) (\<lambda>acc'. foldA f acc' xs)"

definition logA :: "log_entry \<Rightarrow> unit action" where
  "logA l = (\<lambda>s. (Inr (), s\<lparr>logged := logged s @ [l]\<rparr>))"

definition nanoid :: "env \<Rightarrow> string action" where
  "nanoid E = (\<lambda>s. (Inr (nanoid_at E (ids_drawn s)), s\<lparr>ids_drawn := Suc (ids_drawn s)\<rparr>))"

text \<open>A read of the store and a write to it: one round trip each, which may fail.\<close>

definition db_read :: "env \<Rightarrow> store_call \<Rightarrow> (state \<Rightarrow> 'a) \<Rightarrow> 'a action" where
  "db_read E c f = (\<lambda>s.
     let s1 = s\<lparr>calls := calls s @ [c]\<rparr>
     in if outage E (length (calls s)) then (Inl (StoreError ''store unavailable''), s1)
        else (Inr (f s1), s1))"

definition db_write :: "env \<Rightarrow> store_call \<Rightarrow> (state \<Rightarrow> state) \<Rightarrow> unit action" where
  "db_write E c g = (\<lambda>s.
     let s1 = s\<lparr>calls := calls s @ [c]\<rparr>
     in if outage E (length (calls s)) then (Inl (StoreError ''store unavailable''), s1)
        else (Inr (), g s1))"

section \<open>Reference entities\<close>

text \<open>
  \<open>checkVendor\<close> (source lines 309-323) and \<open>ensureManufacturer\<close> (lines 325-343):
  \<open>findOne\<close> returns the first document that matches, \<open>save\<close> appends the new one.
\<close>

definition checkVendor :: "env \<Rightarrow> string option \<Rightarrow> string option action" where
  "checkVendor E siteSource =
     bindA (db_read E (VendorFindOne siteSource)
              (\<lambda>s. find (\<lambda>v. vn_name v = siteSource) (vendors s)))
       (\<lambda>found. case found of
            Some vendor \<Rightarrow> returnA (vn_vendorId vendor)
          | None \<Rightarrow>
              bindA (nanoid E) (\<lambda>fresh.
                let vendor = \<lparr>vn_vendorId = Some fresh, vn_siteSource = siteSource,
                               vn_name = siteSource\<rparr>
                in bindA (db_write E (VendorSave vendor)
                            (\<lambda>s. s\<lparr>vendors := vendors s @ [vendor]\<rparr>))
                     (\<lambda>_. returnA (vn_vendorId vendor))))"

definition ensureManufacturer ::
  "env \<Rightarrow> string option \<Rightarrow> string option \<Rightarrow> string option action" where
  "ensureManufacturer E manufacturerId manufacturerName =
     bindA (db_read E (ManufacturerFindOne manufacturerId)
              (\<lambda>s. find (\<lambda>m. m_manufacturerId m = manufacturerId) (manufacturers s)))
       (\<lambda>found. case found of
            Some manufacturer \<Rightarrow> returnA (m_manufacturerId manufacturer)
          | None \<Rightarrow>
              (let manufacturer = \<lparr>m_manufacturerId = manufacturerId,
                                    m_name = manufacturerName\<rparr>
               in bindA (db_write E (ManufacturerSave manufacturer)
                           (\<lambda>s. s\<lparr>manufacturers := manufacturers s @ [manufacturer]\<rparr>))
                    (\<lambda>_. returnA (m_manufacturerId manufacturer))))"

section \<open>Building a variant\<close>

text \<open>\<open>parseNumber\<close> (source lines 430-433) and \<open>parseImages\<close> (lines 419-428).\<close>

definition parseNumber :: "env \<Rightarrow> string option \<Rightarrow> number" where
  "parseNumber E v =
     (let parsed = parseFloat E (ToString v) in if isNaN parsed then Num 0 else parsed)"

definition parseImages :: "row \<Rightarrow> image list" where
  "parseImages r =
     [\<lparr>im_fileName = or_else (r ''ImageFileName'') [],
       im_cdnLink = or_null (r ''ItemImageURL''),
       im_i = 0,
       im_alt = or_null (r ''ItemDescription'')\<rparr>]"

text \<open>
  \<open>constructVariant\<close> (source lines 345-378). The three identifiers are drawn in the
  order the code calls \<open>nanoid()\<close>: the variant id first, then the two paths inside the
  object literal.
\<close>

definition constructVariant :: "env \<Rightarrow> row \<Rightarrow> variant action" where
  "constructVariant E r =
     bindA (nanoid E) (\<lambda>variantId.
       let isAvailable = parseBoolean (r ''QuantityOnHand'');
           price = parseNumber E (r ''UnitPrice'');
           description = r ''ItemDescription'';
           packaging = r ''PKG'';
           manufacturerItemCode = r ''ManufacturerItemCode'';
           manufacturerItemId = r ''ItemID'';
           sku = ToString manufacturerItemId @ ToString manufacturerItemCode
                   @ ToString packaging;
           optionName = ToString packaging @ '', '' @ ToString description
       in bindA (nanoid E) (\<lambda>optionsPath.
          bindA (nanoid E) (\<lambda>optionItemsPath.
            returnA \<lparr>v_id = variantId,
                     v_available = isAvailable,
                     v_attributes = \<lparr>a_packaging = packaging, a_description = description\<rparr>,
                     v_cost = price,
                     v_currency = ''EUR'',
                     v_description = cell description,
                     v_manufacturerItemCode = manufacturerItemCode,
                     v_manufacturerItemId = manufacturerItemId,
                     v_packaging = packaging,
                     v_price = price,
                     v_optionName = optionName,
                     v_optionsPath = optionsPath,
                     v_optionItemsPath = optionItemsPath,
                     v_sku = sku,
                     v_active = True,
                     v_images = parseImages r,
                     v_itemCode = r ''NDCItemCode''\<rparr>)))"

text \<open>\<open>isVariantUpdated\<close> (source lines 380-388).\<close>

definition isVariantUpdated :: "variant \<Rightarrow> variant \<Rightarrow> bool" where
  "isVariantUpdated existingVariant updatedVariant =
     (let priceChanged = strict_neq_number (v_price existingVariant) (v_price updatedVariant);
          availabilityChanged = (v_available existingVariant \<noteq> v_available updatedVariant);
          descriptionChanged = (v_description existingVariant \<noteq> v_description updatedVariant)
      in priceChanged \<or> availabilityChanged \<or> descriptionChanged)"

text \<open>\<open>generateOptions\<close> (source lines 390-417).\<close>

definition generateOptions :: "env \<Rightarrow> row \<Rightarrow> option_def list action" where
  "generateOptions E r =
     bindA (nanoid E) (\<lambda>id1. bindA (nanoid E) (\<lambda>id2.
     bindA (nanoid E) (\<lambda>id3. bindA (nanoid E) (\<lambda>id4.
       returnA
         [\<lparr>o_id = id1, o_name = ''packaging'', o_dataField = None,
           o_values = [\<lparr>ov_id = id2, ov_name = r ''PKG'', ov_value = r ''PKG''\<rparr>]\<rparr>,
          \<lparr>o_id = id3, o_name = ''description'', o_dataField = None,
           o_values = [\<lparr>ov_id = id4, ov_name = r ''ItemDescription'',
                         ov_value = r ''ItemDescription''\<rparr>]\<rparr>]))))"

text \<open>
  \<open>enhanceDescription\<close> (source lines 440-470): the call to the text service is commented
  out, what is left is \<open>try { return description } catch (error) { log; return description }\<close>.
\<close>

definition enhanceDescription :: "string option \<Rightarrow> string \<Rightarrow> string action" where
  "enhanceDescription name description =
     catchA (returnA description)
       (\<lambda>error. bindA (logA (LogError (''Error enhancing description: '' @ message error)))
                   (\<lambda>_. returnA description))"

section \<open>Merging variants\<close>

text \<open>
  A JavaScript \<open>Map\<close> keeps its keys in insertion order, and \<open>set\<close> on a key it already
  holds replaces the value where it stands: an association list with an update in place.
\<close>

fun map_set :: "('k \<times> 'v) list \<Rightarrow> 'k \<Rightarrow> 'v \<Rightarrow> ('k \<times> 'v) list" where
  "map_set [] k v = [(k, v)]"
| "map_set ((k', v') # m) k v = (if k' = k then (k, v) # m else (k', v') # map_set m k v)"

text \<open>
  The merge of \<open>processChunk\<close> (source lines 193-210), which the source writes inline:
  the map is filled from the stored variants, each incoming variant is compared with the
  entry the map holds for its sku at that moment, and the values are read off in order.
\<close>

definition merge_step :: "(string \<times> variant) list \<Rightarrow> variant \<Rightarrow> (string \<times> variant) list" where
  "merge_step variantMap variant =
     (case map_of variantMap (v_sku variant) of
        Some existingVariant \<Rightarrow>
          if isVariantUpdated existingVariant variant
          then map_set variantMap (v_sku variant) variant
          else variantMap
      | None \<Rightarrow> map_set variantMap (v_sku variant) variant)"

definition mergeVariants :: "variant list \<Rightarrow> variant list \<Rightarrow> variant list" where
  "mergeVariants existingVariants variants =
     (let variantMap = foldl (\<lambda>m variant. map_set m (v_sku variant) variant) [] existingVariants
      in map snd (foldl merge_step variantMap variants))"

section \<open>Grouping the rows of a chunk\<close>

text \<open>
  \<open>groupedData\<close> is a plain object used as a dictionary (source lines 136-156). Its own
  keys are kept in insertion order; a read \<open>accumulator[productID]\<close> of a key it does not
  own falls through to \<open>Object.prototype\<close>, whose properties are all truthy.
\<close>

record group =
  g_row :: row
  g_variants :: "variant list"

definition object_prototype_keys :: "string list" where
  "object_prototype_keys =
     [''constructor'', ''__defineGetter__'', ''__defineSetter__'', ''hasOwnProperty'',
      ''__lookupGetter__'', ''__lookupSetter__'', ''isPrototypeOf'',
      ''propertyIsEnumerable'', ''toString'', ''valueOf'', ''__proto__'',
      ''toLocaleString'']"

text \<open>
  One step of the \<open>reduce\<close>. A row without \<open>ProductID\<close> or \<open>ItemID\<close> is skipped with a
  warning. Otherwise the variant is built and pushed on the group of its product; when
  the product id is the name of a property of \<open>Object.prototype\<close>, no group is created
  (the read is truthy), the value read has no \<open>variants\<close>, and \<open>push\<close> raises a
  \<open>TypeError\<close>.
\<close>

definition group_step :: "env \<Rightarrow> (string \<times> group) list \<Rightarrow> row \<Rightarrow> (string \<times> group) list action" where
  "group_step E accumulator currentItem =
     (case (currentItem ''ProductID'', currentItem ''ItemID'') of
        (Some productID, Some itemId) \<Rightarrow>
          if productID = [] \<or> itemId = []
          then bindA (logA (LogWarn ''Missing ProductID or ItemID in row, skipping.''))
                 (\<lambda>_. returnA accumulator)
          else
            (let accumulator1 =
                   (if map_of accumulator productID = None
                       \<and> productID \<notin> set object_prototype_keys
                    then accumulator @ [(productID, \<lparr>g_row = currentItem, g_variants = []\<rparr>)]
                    else accumulator)
             in bindA (constructVariant E currentItem) (\<lambda>variant.
                  case map_of accumulator1 productID of
                    Some g \<Rightarrow>
                      returnA (map_set accumulator1 productID
                                 (g\<lparr>g_variants := g_variants g @ [variant]\<rparr>))
                  | None \<Rightarrow>
                      throwA (TypeError ''Cannot read properties of undefined (reading 'push')'')))
      | _ \<Rightarrow>
          bindA (logA (LogWarn ''Missing ProductID or ItemID in row, skipping.''))
            (\<lambda>_. returnA accumulator))"

text \<open>
  \<open>Object.keys\<close>: the keys that are array indices (canonical decimal numerals below
  \<open>2^32 - 1\<close>) come first, in ascending numeric order, the others follow in insertion
  order.
\<close>

definition isArrayIndex :: "string \<Rightarrow> bool" where
  "isArrayIndex k =
     (k \<noteq> [] \<and> list_all isDecimalDigit k \<and> (k = ''0'' \<or> hd k \<noteq> CHR ''0'')
      \<and> digits_value k < 4294967295)"

definition object_keys :: "string list \<Rightarrow> string list" where
  "object_keys ks =
     sort_key digits_value (filter isArrayIndex ks) @ filter (\<lambda>k. \<not> isArrayIndex k) ks"

section \<open>The batched write\<close>

text \<open>
  How an assignment changes a stored document. An \<open>undefined\<close> value is left out of the
  update or stored as \<open>null\<close>, as the environment says; so is the description of a
  variant inside the variants that are written.
\<close>

definition stored_description :: "bool \<Rightarrow> jsstring \<Rightarrow> jsstring" where
  "stored_description omit x = (case x of Undefined \<Rightarrow> if omit then Undefined else Null | _ \<Rightarrow> x)"

definition stored_variant :: "bool \<Rightarrow> variant \<Rightarrow> variant" where
  "stored_variant omit v = v\<lparr>v_description := stored_description omit (v_description v)\<rparr>"

definition upd :: "bool \<Rightarrow> 'a option \<Rightarrow> 'a option \<Rightarrow> 'a option" where
  "upd omit v old = (case v of Some x \<Rightarrow> Some x | None \<Rightarrow> if omit then old else None)"

fun apply_assign :: "bool \<Rightarrow> product \<Rightarrow> assign \<Rightarrow> product" where
  "apply_assign omit d (Set_docId v) = d\<lparr>p_docId := upd omit v (p_docId d)\<rparr>"
| "apply_assign omit d (Set_productID v) = d\<lparr>p_productID := upd omit v (p_productID d)\<rparr>"
| "apply_assign omit d (Set_name v) = d\<lparr>p_name := upd omit v (p_name d)\<rparr>"
| "apply_assign omit d (Set_description v) = d\<lparr>p_description := upd omit v (p_description d)\<rparr>"
| "apply_assign omit d (Set_vendorId v) = d\<lparr>p_vendorId := upd omit v (p_vendorId d)\<rparr>"
| "apply_assign omit d (Set_manufacturerId v) =
     d\<lparr>p_manufacturerId := upd omit v (p_manufacturerId d)\<rparr>"
| "apply_assign omit d (Set_storefrontPriceVisibility v) =
     d\<lparr>p_storefrontPriceVisibility := upd omit v (p_storefrontPriceVisibility d)\<rparr>"
| "apply_assign omit d (Set_variants v) =
     d\<lparr>p_variants := upd omit (map_option (map (stored_variant omit)) v) (p_variants d)\<rparr>"
| "apply_assign omit d (Set_options v) = d\<lparr>p_options := upd omit v (p_options d)\<rparr>"
| "apply_assign omit d (Set_availability v) =
     d\<lparr>p_availability := upd omit v (p_availability d)\<rparr>"
| "apply_assign omit d (Set_isFragile v) = d\<lparr>p_isFragile := upd omit v (p_isFragile d)\<rparr>"
| "apply_assign omit d (Set_published v) = d\<lparr>p_published := upd omit v (p_published d)\<rparr>"
| "apply_assign omit d (Set_isTaxable v) = d\<lparr>p_isTaxable := upd omit v (p_isTaxable d)\<rparr>"
| "apply_assign omit d (Set_images v) = d\<lparr>p_images := upd omit v (p_images d)\<rparr>"
| "apply_assign omit d (Set_categoryId v) = d\<lparr>p_categoryId := upd omit v (p_categoryId d)\<rparr>"
| "apply_assign omit d (Set_dataPublic v) = d\<lparr>p_dataPublic := upd omit v (p_dataPublic d)\<rparr>"
| "apply_assign omit d (Set_immutable v) = d\<lparr>p_immutable := upd omit v (p_immutable d)\<rparr>"
| "apply_assign omit d (Set_deploymentId v) =
     d\<lparr>p_deploymentId := upd omit v (p_deploymentId d)\<rparr>"
| "apply_assign omit d (Set_docType v) = d\<lparr>p_docType := upd omit v (p_docType d)\<rparr>"
| "apply_assign omit d (Set_namespace v) = d\<lparr>p_namespace := upd omit v (p_namespace d)\<rparr>"
| "apply_assign omit d (Set_companyId v) = d\<lparr>p_companyId := upd omit v (p_companyId d)\<rparr>"
| "apply_assign omit d (Set_status v) = d\<lparr>p_status := upd omit v (p_status d)\<rparr>"
| "apply_assign omit d (Set_info v) = d\<lparr>p_info := upd omit v (p_info d)\<rparr>"

definition blank_product :: product where
  "blank_product =
     \<lparr>p_docId = None, p_productID = None, p_name = None, p_description = None,
      p_vendorId = None, p_manufacturerId = None, p_storefrontPriceVisibility = None,
      p_variants = None, p_options = None, p_availability = None, p_isFragile = None,
      p_published = None, p_isTaxable = None, p_images = None, p_categoryId = None,
      p_dataPublic = None, p_immutable = None, p_deploymentId = None, p_docType = None,
      p_namespace = None, p_companyId = None, p_status = None, p_info = None\<rparr>"

text \<open>
  \<open>updateOne\<close> with \<open>upsert\<close>: the first document the filter matches receives the \<open>$set\<close>
  part and nothing else; when no document matches and \<open>upsert\<close> is set, a document is
  inserted that holds the filter's \<open>productID\<close>, the \<open>$set\<close> part and the
  \<open>$setOnInsert\<close> part.
\<close>

definition inserted_document :: "bool \<Rightarrow> updateOne \<Rightarrow> product" where
  "inserted_document omit u =
     foldl (apply_assign omit)
       (foldl (apply_assign omit) (blank_product\<lparr>p_productID := Some (uo_filter_productID u)\<rparr>)
          (uo_set u))
       (case uo_setOnInsert u of None \<Rightarrow> [] | Some as \<Rightarrow> as)"

fun updateOne_apply :: "bool \<Rightarrow> product list \<Rightarrow> updateOne \<Rightarrow> product list" where
  "updateOne_apply omit [] u = (if uo_upsert u then [inserted_document omit u] else [])"
| "updateOne_apply omit (d # ds) u =
     (if p_productID d = Some (uo_filter_productID u)
      then foldl (apply_assign omit) d (uo_set u) # ds
      else d # updateOne_apply omit ds u)"

definition bulkWrite_apply :: "bool \<Rightarrow> updateOne list \<Rightarrow> product list \<Rightarrow> product list" where
  "bulkWrite_apply omit bulkOps ds = foldl (updateOne_apply omit) ds bulkOps"

section \<open>Processing a chunk\<close>

text \<open>
  \<open>existingProductsMap\<close> (source lines 164-167) is filled in the order \<open>find\<close> returned
  the documents, so \<open>get\<close> gives the last document with the product id.
\<close>

definition existing_get :: "product list \<Rightarrow> string \<Rightarrow> product option" where
  "existing_get existingProducts productID =
     find (\<lambda>d. p_productID d = Some productID) (rev existingProducts)"

text \<open>\<open>String.prototype.trim\<close>.\<close>

definition trim :: "string \<Rightarrow> string" where
  "trim s = rev (dropWhile isStrWhiteSpaceChar (rev (dropWhile isStrWhiteSpaceChar s)))"

text \<open>The \<open>$set\<close> part of the update (source lines 258-283), in the order it is written.\<close>

definition set_part :: "product \<Rightarrow> assign list" where
  "set_part productDoc =
     [Set_productID (p_productID productDoc),
      Set_name (p_name productDoc),
      Set_description (p_description productDoc),
      Set_vendorId (p_vendorId productDoc),
      Set_manufacturerId (p_manufacturerId productDoc),
      Set_storefrontPriceVisibility (p_storefrontPriceVisibility productDoc),
      Set_variants (p_variants productDoc),
      Set_options (p_options productDoc),
      Set_availability (p_availability productDoc),
      Set_isFragile (p_isFragile productDoc),
      Set_published (p_published productDoc),
      Set_isTaxable (p_isTaxable productDoc),
      Set_images (p_images productDoc),
      Set_categoryId (p_categoryId productDoc),
      Set_dataPublic (p_dataPublic productDoc),
      Set_immutable (p_immutable productDoc),
      Set_deploymentId (p_deploymentId productDoc),
      Set_docType (p_docType productDoc),
      Set_namespace (p_namespace productDoc),
      Set_companyId (p_companyId productDoc),
      Set_status (p_status productDoc),
      Set_info (p_info productDoc)]"

text \<open>
  The document of a product the store does not hold yet (source lines 214-250). The
  identifiers are drawn in the order of the object literal: the document id, the four
  of \<open>generateOptions\<close>, then the two of \<open>info\<close>.
\<close>

definition new_productDoc ::
  "env \<Rightarrow> string \<Rightarrow> row \<Rightarrow> variant list \<Rightarrow> string option \<Rightarrow> string option \<Rightarrow> product action" where
  "new_productDoc E productID r variants vendorId manufacturerId =
     bindA (nanoid E) (\<lambda>docId.
     bindA (generateOptions E r) (\<lambda>options.
     bindA (nanoid E) (\<lambda>transactionId.
     bindA (nanoid E) (\<lambda>userRequestId.
       let productDoc =
             \<lparr>p_docId = Some docId,
              p_productID = Some productID,
              p_name = r ''ProductName'',
              p_description = Some (or_else (r ''ProductDescription'') []),
              p_vendorId = vendorId,
              p_manufacturerId = manufacturerId,
              p_storefrontPriceVisibility = Some ''members-only'',
              p_variants = Some variants,
              p_options = Some options,
              p_availability = Some (or_else (r ''Availability'') ''available''),
              p_isFragile = Some False,
              p_published = Some ''published'',
              p_isTaxable = Some True,
              p_images = Some (parseImages r),
              p_categoryId = Some ''U8YOybu1vbgQdbhSkrpmAYIV'',
              p_dataPublic = Some EmptyObject,
              p_immutable = Some False,
              p_deploymentId = Some ''d8039'',
              p_docType = Some ''item'',
              p_namespace = Some ''items'',
              p_companyId = Some ''2yTnVUyG6H9yRX3K1qIFIiRz'',
              p_status = Some ''active'',
              p_info = Some \<lparr>i_transactionId = transactionId, i_skipEvent = False,
                              i_userRequestId = userRequestId\<rparr>\<rparr>;
           description = or_else (r ''ProductDescription'') []
       in if description = [] \<or> trim description = []
          then bindA (enhanceDescription (p_name productDoc) description)
                 (\<lambda>enhancedDescription.
                    returnA (productDoc\<lparr>p_description := Some enhancedDescription\<rparr>))
          else returnA productDoc))))"

text \<open>
  The fields an update takes from the representative row of the group, and the merged
  variants (source lines 184-212).
\<close>

definition updated_productDoc ::
  "product \<Rightarrow> row \<Rightarrow> variant list \<Rightarrow> string option \<Rightarrow> string option \<Rightarrow> product" where
  "updated_productDoc existingProduct r variants vendorId manufacturerId =
     existingProduct
       \<lparr>p_name := r ''ProductName'',
        p_description := Some (or_else (r ''ProductDescription'') []),
        p_vendorId := vendorId,
        p_manufacturerId := manufacturerId,
        p_availability := Some (or_else (r ''Availability'') ''available''),
        p_images := Some (parseImages r),
        p_variants := Some (mergeVariants (or_empty (p_variants existingProduct)) variants)\<rparr>"

text \<open>
  The fallback for a document without id (source lines 253-256) and the insert-only
  part of the update (lines 285-289), which is written for a product that the chunk's
  query did not find.
\<close>

definition ensure_docId :: "env \<Rightarrow> string \<Rightarrow> product \<Rightarrow> product action" where
  "ensure_docId E productID productDoc =
     (if falsy (p_docId productDoc)
      then bindA (logA (LogError (''Product with ProductID '' @ productID @ '' has null docId'')))
             (\<lambda>_. bindA (nanoid E) (\<lambda>fresh. returnA (productDoc\<lparr>p_docId := Some fresh\<rparr>)))
      else returnA productDoc)"

definition setOnInsert_for :: "env \<Rightarrow> bool \<Rightarrow> product \<Rightarrow> assign list option action" where
  "setOnInsert_for E existing productDoc =
     (if \<not> existing
      then bindA (if falsy (p_docId productDoc)
                  then bindA (nanoid E) (\<lambda>fresh. returnA (Some fresh))
                  else returnA (p_docId productDoc))
             (\<lambda>docId. returnA (Some [Set_docId docId]))
      else returnA None)"

text \<open>The body of the loop over \<open>productIDs\<close> (source lines 171-298).\<close>

definition process_group ::
  "env \<Rightarrow> product list \<Rightarrow> (string \<times> group) list \<Rightarrow> string \<Rightarrow> updateOne action" where
  "process_group E existingProducts groupedData productID =
     (case map_of groupedData productID of
        None \<Rightarrow> throwA (TypeError ''Cannot read properties of undefined (reading 'row')'')
      | Some g \<Rightarrow>
          bindA (checkVendor E (g_row g ''SiteSource'')) (\<lambda>vendorId.
          bindA (ensureManufacturer E (g_row g ''ManufacturerID'') (g_row g ''ManufacturerName''))
            (\<lambda>manufacturerId.
          bindA (case existing_get existingProducts productID of
                   Some existingProduct \<Rightarrow>
                     returnA (updated_productDoc existingProduct (g_row g) (g_variants g)
                                vendorId manufacturerId)
                 | None \<Rightarrow>
                     new_productDoc E productID (g_row g) (g_variants g) vendorId manufacturerId)
            (\<lambda>productDoc0.
          bindA (ensure_docId E productID productDoc0) (\<lambda>productDoc.
          bindA (setOnInsert_for E (existing_get existingProducts productID \<noteq> None) productDoc)
            (\<lambda>setOnInsert.
               returnA \<lparr>uo_filter_productID = productID,
                        uo_set = set_part productDoc,
                        uo_setOnInsert = setOnInsert,
                        uo_upsert = True\<rparr>))))))"

text \<open>
  The query \<open>find({productID: {$in: productIDs}})\<close> (source lines 160-162) and the loop
  over \<open>productIDs\<close> that fills \<open>bulkOps\<close> (lines 169-298).
\<close>

definition find_in :: "string list \<Rightarrow> product list \<Rightarrow> product list" where
  "find_in productIDs ds =
     filter (\<lambda>d. case p_productID d of Some p \<Rightarrow> p \<in> set productIDs | None \<Rightarrow> False) ds"

definition collect_bulkOps ::
  "env \<Rightarrow> product list \<Rightarrow> (string \<times> group) list \<Rightarrow> updateOne list \<Rightarrow> string list
     \<Rightarrow> updateOne list action" where
  "collect_bulkOps E existingProducts groupedData bulkOps0 productIDs =
     foldA (\<lambda>bulkOps productID.
              bindA (process_group E existingProducts groupedData productID)
                (\<lambda>u. returnA (bulkOps @ [u])))
       bulkOps0 productIDs"

text \<open>\<open>processChunk\<close> (source lines 135-308).\<close>

definition processChunk :: "env \<Rightarrow> row list \<Rightarrow> unit action" where
  "processChunk E chunk =
     bindA (foldA (group_step E) [] chunk) (\<lambda>groupedData.
       let productIDs = object_keys (map fst groupedData)
       in bindA (db_read E (ProductFind productIDs) (\<lambda>s. find_in productIDs (products s)))
            (\<lambda>existingProducts.
          bindA (collect_bulkOps E existingProducts groupedData [] productIDs)
            (\<lambda>bulkOps.
               if length bulkOps > 0
               then catchA (db_write E (ProductBulkWrite bulkOps)
                              (\<lambda>s. s\<lparr>products :=
                                       bulkWrite_apply (omitUndefined E) bulkOps (products s)\<rparr>))
                      (\<lambda>error. bindA (logA (LogError ''Error on bulk insertion''))
                                  (\<lambda>_. throwA error))
               else returnA ())))"

section \<open>The driver\<close>

text \<open>
  \<open>importProducts\<close> (source lines 55-133) builds
  \<open>createReadStream(file).pipe(csvParser(...))\<close> and registers its three handlers on
  the stream \<open>pipe\<close> returns, the parser. The parser delivers its rows one by one. A
  run ends in one of three ways:
  \<^item> the parser emits \<open>end\<close>;
  \<^item> the parser emits \<open>error\<close>, which the third handler receives;
  \<^item> the file stream emits \<open>error\<close> (the file cannot be opened or read). \<open>pipe\<close> does
    not forward an error of its source to its destination, and no handler is registered
    on the file stream: Node throws an \<open>error\<close> event without listener as an uncaught
    exception, the parser never ends, and the promise is never settled.
  \<open>Resolved\<close> and \<open>Rejected\<close> are the two ways the promise the method returns is
  settled; \<open>Uncaught\<close> is the third ending.

  The \<open>data\<close> handler is asynchronous: when a row fills the chunk it pauses the parser,
  awaits \<open>processChunk(chunk)\<close> and only then empties \<open>chunk\<close> and resumes. A paused
  parser delivers no row, so the handlers of the rows run one after the other, each to
  its end. The
  \<open>end\<close> event is not held back: when the row that fills the chunk is the last row of
  the file, \<open>end\<close> is emitted while the \<open>data\<close> handler still awaits, its handler finds
  the chunk still full and calls \<open>processChunk\<close> on it a second time, and the two calls
  run interleaved at their awaits. The functions of this theory run one call of
  \<open>processChunk\<close> on its own; a run that comes to this point ends here as
  \<open>Overlapped\<close>, in the state in which the two calls on the last chunk begin, and
  nothing is said about what they leave.
\<close>

datatype stream_end = End | ParserError error | FileError error

datatype outcome = Resolved | Rejected error | Uncaught error | Overlapped

definition chunkSize :: nat where
  "chunkSize = 1000"

text \<open>\<open>try { await this.processChunk(chunk) } catch (error) { this.logger.error(...) }\<close>\<close>

definition attempt :: "(row list \<Rightarrow> unit action) \<Rightarrow> string \<Rightarrow> row list \<Rightarrow> state \<Rightarrow> state" where
  "attempt pc label chunk s =
     snd (catchA (pc chunk) (\<lambda>error. logA (LogError (label @ message error))) s)"

definition on_data ::
  "nat \<Rightarrow> (row list \<Rightarrow> unit action) \<Rightarrow> row list \<times> state \<Rightarrow> row \<Rightarrow> row list \<times> state" where
  "on_data n pc cs r =
     (let chunk = fst cs @ [r]
      in if length chunk \<ge> n
         then ([], attempt pc ''Error processing chunk: '' chunk (snd cs))
         else (chunk, snd cs))"

definition on_end :: "(row list \<Rightarrow> unit action) \<Rightarrow> row list \<times> state \<Rightarrow> outcome \<times> state" where
  "on_end pc cs =
     (let s1 = (if length (fst cs) > 0
                then attempt pc ''Error processing final chunk: '' (fst cs) (snd cs)
                else snd cs)
      in (Resolved, snd (logA (LogInfo ''Product import completed'') s1)))"

definition on_error :: "error \<Rightarrow> row list \<times> state \<Rightarrow> outcome \<times> state" where
  "on_error e cs =
     (Rejected e, snd (logA (LogError (''Error reading CSV file: '' @ message e)) (snd cs)))"

text \<open>
  The chunk and the state when the last row of the file has been pushed on the chunk
  (the rows before it are handled, each handler to its end), and whether that row filled
  the chunk.
\<close>

definition at_last_row ::
  "nat \<Rightarrow> (row list \<Rightarrow> unit action) \<Rightarrow> row list \<Rightarrow> state \<Rightarrow> row list \<times> state" where
  "at_last_row n pc rows s0 =
     (let cs = foldl (on_data n pc) ([], s0) (butlast rows)
      in (fst cs @ [last rows], snd cs))"

definition last_row_fills ::
  "nat \<Rightarrow> (row list \<Rightarrow> unit action) \<Rightarrow> row list \<Rightarrow> state \<Rightarrow> bool" where
  "last_row_fills n pc rows s0 = (rows \<noteq> [] \<and> length (fst (at_last_row n pc rows s0)) \<ge> n)"

definition consume ::
  "nat \<Rightarrow> (row list \<Rightarrow> unit action) \<Rightarrow> row list \<Rightarrow> stream_end \<Rightarrow> state \<Rightarrow> outcome \<times> state" where
  "consume n pc rows ending s =
     (let s0 = snd (logA (LogInfo ''Starting product import'') s);
          cs = foldl (on_data n pc) ([], s0) rows
      in case ending of
           End \<Rightarrow>
             if last_row_fills n pc rows s0
             then (Overlapped, snd (at_last_row n pc rows s0))
             else on_end pc cs
         | ParserError e \<Rightarrow> on_error e cs
         | FileError e \<Rightarrow> (Uncaught e, snd cs))"

definition importProducts :: "env \<Rightarrow> row list \<Rightarrow> stream_end \<Rightarrow> state \<Rightarrow> outcome \<times> state" where
  "importProducts E rows ending s = consume chunkSize (processChunk E) rows ending s"

section \<open>Notions used to state the properties\<close>

text \<open>
  The variant \<open>constructVariant\<close> returns for a row when \<open>n\<close> identifiers have been
  drawn before: a closed form of the method, proved equal to it below.
\<close>

definition variant_of_row :: "env \<Rightarrow> row \<Rightarrow> nat \<Rightarrow> variant" where
  "variant_of_row E r n =
     \<lparr>v_id = nanoid_at E n,
      v_available = parseBoolean (r ''QuantityOnHand''),
      v_attributes = \<lparr>a_packaging = r ''PKG'', a_description = r ''ItemDescription''\<rparr>,
      v_cost = parseNumber E (r ''UnitPrice''),
      v_currency = ''EUR'',
      v_description = cell (r ''ItemDescription''),
      v_manufacturerItemCode = r ''ManufacturerItemCode'',
      v_manufacturerItemId = r ''ItemID'',
      v_packaging = r ''PKG'',
      v_price = parseNumber E (r ''UnitPrice''),
      v_optionName = ToString (r ''PKG'') @ '', '' @ ToString (r ''ItemDescription''),
      v_optionsPath = nanoid_at E (Suc n),
      v_optionItemsPath = nanoid_at E (Suc (Suc n)),
      v_sku = ToString (r ''ItemID'') @ ToString (r ''ManufacturerItemCode'') @ ToString (r ''PKG''),
      v_active = True,
      v_images = parseImages r,
      v_itemCode = r ''NDCItemCode''\<rparr>"

text \<open>
  The elements of a list in the order of their first occurrence: the order in which a
  \<open>Map\<close> lists keys that were set one after the other.
\<close>

definition keep_first :: "'a list \<Rightarrow> 'a \<Rightarrow> 'a list" where
  "keep_first acc x = (if x \<in> set acc then acc else acc @ [x])"

definition first_occurrences :: "'a list \<Rightarrow> 'a list" where
  "first_occurrences xs = foldl keep_first [] xs"

text \<open>
  The stored variant that stands for a sku when the merge begins: the last one with that
  sku in the stored list (the only one when the stored skus are distinct).
\<close>

definition prior_variant :: "variant list \<Rightarrow> string \<Rightarrow> variant option" where
  "prior_variant existingVariants k = find (\<lambda>e. v_sku e = k) (rev existingVariants)"

text \<open>A map from skus to variants whose every entry is filed under its own sku.\<close>

definition keyed :: "(string \<times> variant) list \<Rightarrow> variant set \<Rightarrow> bool" where
  "keyed m V = (\<forall>(k, v) \<in> set m. k = v_sku v \<and> v \<in> V)"

text \<open>A state predicate that an action keeps true.\<close>

definition inv :: "(state \<Rightarrow> bool) \<Rightarrow> 'a action \<Rightarrow> bool" where
  "inv I m = (\<forall>s. I s \<longrightarrow> I (snd (m s)))"

text \<open>State predicates that do not read a component of the state.\<close>

definition ignores_ids :: "(state \<Rightarrow> bool) \<Rightarrow> bool" where
  "ignores_ids I = (\<forall>s n. I s \<longrightarrow> I (s\<lparr>ids_drawn := n\<rparr>))"

definition ignores_log :: "(state \<Rightarrow> bool) \<Rightarrow> bool" where
  "ignores_log I = (\<forall>s l. I s \<longrightarrow> I (s\<lparr>logged := l\<rparr>))"

definition accepts_calls :: "(state \<Rightarrow> bool) \<Rightarrow> bool" where
  "accepts_calls I =
     (\<forall>s c. (\<forall>ops. c \<noteq> ProductBulkWrite ops) \<longrightarrow> I s \<longrightarrow> I (s\<lparr>calls := calls s @ [c]\<rparr>))"

text \<open>State predicates that stay true when a vendor or a manufacturer is saved.\<close>

definition accepts_vendors :: "(state \<Rightarrow> bool) \<Rightarrow> bool" where
  "accepts_vendors I = (\<forall>s v. I s \<longrightarrow> I (s\<lparr>vendors := vendors s @ [v]\<rparr>))"

definition accepts_manufacturers :: "(state \<Rightarrow> bool) \<Rightarrow> bool" where
  "accepts_manufacturers I = (\<forall>s m. I s \<longrightarrow> I (s\<lparr>manufacturers := manufacturers s @ [m]\<rparr>))"

definition op_spec :: "product list \<Rightarrow> (string \<times> group) list \<Rightarrow> string \<Rightarrow> updateOne \<Rightarrow> bool" where
  "op_spec ex gd pid u =
     (uo_filter_productID u = pid \<and> uo_upsert u
      \<and> (\<exists>pd g. map_of gd pid = Some g \<and> uo_set u = set_part pd
            \<and> p_variants pd
                = Some (case existing_get ex pid of
                          None \<Rightarrow> g_variants g
                        | Some d \<Rightarrow> mergeVariants (or_empty (p_variants d)) (g_variants g)))
      \<and> (case existing_get ex pid of
            Some d \<Rightarrow> uo_setOnInsert u = None
          | None \<Rightarrow> (\<exists>i. uo_setOnInsert u = Some [Set_docId (Some i)])))"

section \<open>Concrete inputs\<close>

text \<open>
  An environment, the empty store and the row of the specification's end-to-end example
  (with the same row at another price), on which the theorems below are run.
\<close>

definition ex_env :: env where
  "ex_env =
     \<lparr>parseFloat = (\<lambda>s. if s = ''5.50'' then Num (11 / 2) else if s = ''12'' then Num 12 else NaN),
      nanoid_at = (\<lambda>n. replicate (Suc n) CHR ''x''),
      outage = (\<lambda>_. False),
      omitUndefined = True\<rparr>"

definition empty_state :: state where
  "empty_state =
     \<lparr>products = [], vendors = [], manufacturers = [], vendorCache = [],
      manufacturerCache = [], ids_drawn = 0, calls = [], logged = []\<rparr>"

definition ex_row :: row where
  "ex_row =
     [''SiteSource'' \<mapsto> ''AcmeMed'', ''ItemID'' \<mapsto> ''I1'', ''ManufacturerID'' \<mapsto> ''M1'',
      ''ManufacturerName'' \<mapsto> ''Acme'', ''ProductID'' \<mapsto> ''P1'', ''ProductName'' \<mapsto> ''Gauze'',
      ''ManufacturerItemCode'' \<mapsto> ''C1'', ''ItemDescription'' \<mapsto> ''Sterile 4x4'',
      ''PKG'' \<mapsto> ''Box10'', ''UnitPrice'' \<mapsto> ''5.50'', ''QuantityOnHand'' \<mapsto> ''3'',
      ''Availability'' \<mapsto> ''available'']"

definition ex_row_12 :: row where
  "ex_row_12 = ex_row(''UnitPrice'' \<mapsto> ''12'')"

definition ex_row_B :: row where
  "ex_row_B = ex_row(''ItemID'' \<mapsto> ''I2'')"

text \<open>
  The variants a product of a state holds, and of a variant its sku, its generated id and
  the three fields the merge compares.
\<close>

definition stored_variants :: "state \<Rightarrow> string \<Rightarrow> variant list" where
  "stored_variants s productID =
     concat (map (\<lambda>d. or_empty (p_variants d))
               (filter (\<lambda>d. p_productID d = Some productID) (products s)))"

definition variant_digest ::
  "variant \<Rightarrow> string \<times> string \<times> number \<times> bool \<times> jsstring" where
  "variant_digest v = (v_sku v, v_id v, v_price v, v_available v, v_description v)"

text \<open>The store after the example row was imported once.\<close>

definition ex_state_1 :: state where
  "ex_state_1 = snd (processChunk ex_env [ex_row] empty_state)"

text \<open>
  The store after a chunk with the example row twice was imported into the empty store;
  the example row without the cell \<open>ItemDescription\<close>; and the environment in which the
  database layer stores \<open>undefined\<close> as \<open>null\<close>.
\<close>

definition ex_state_dup :: state where
  "ex_state_dup = snd (processChunk ex_env [ex_row, ex_row] empty_state)"

definition ex_row_plain :: row where
  "ex_row_plain = ex_row(''ItemDescription'' := None)"

definition ex_env_null :: env where
  "ex_env_null = ex_env\<lparr>omitUndefined := False\<rparr>"

text \<open>An update whose every assignment of variants stays within a given set.\<close>

definition op_variants_within :: "variant set \<Rightarrow> updateOne \<Rightarrow> bool" where
  "op_variants_within V u =
     (\<forall>vs. Set_variants (Some vs) \<in> set (uo_set u) \<union> set (or_empty (uo_setOnInsert u))
          \<longrightarrow> set vs \<subseteq> V)"

text \<open>What the grouping returns.\<close>

definition built_from :: "env \<Rightarrow> row list \<Rightarrow> variant \<Rightarrow> bool" where
  "built_from E chunk v = (\<exists>r n. r \<in> set chunk \<and> v = variant_of_row E r n)"

definition groups_built :: "env \<Rightarrow> row list \<Rightarrow> (string \<times> group) list \<Rightarrow> bool" where
  "groups_built E chunk gd =
     (distinct (map fst gd) \<and> (\<forall>(k, g) \<in> set gd. \<forall>v \<in> set (g_variants g). built_from E chunk v))"

text \<open>A stretch of calls without a batched write.\<close>

definition no_bulkWrite :: "store_call list \<Rightarrow> bool" where
  "no_bulkWrite cs = (\<forall>ops. ProductBulkWrite ops \<notin> set cs)"

text \<open>The update instructions of the batched writes among some calls, in order.\<close>

definition bulkWrites :: "store_call list \<Rightarrow> updateOne list" where
  "bulkWrites cs = concat (map (\<lambda>c. case c of ProductBulkWrite ops \<Rightarrow> ops | _ \<Rightarrow> []) cs)"

text \<open>The field names an update instruction sets, and those it sets on insert only.\<close>

definition op_field_names :: "updateOne \<Rightarrow> string list \<times> string list option" where
  "op_field_names u = (map field_name (uo_set u), map_option (map field_name) (uo_setOnInsert u))"

text \<open>The store of \<open>ex_state_1\<close> with the document id of its product missing.\<close>

definition ex_state_noid :: state where
  "ex_state_noid = ex_state_1\<lparr>products := map (\<lambda>d. d\<lparr>p_docId := None\<rparr>) (products ex_state_1)\<rparr>"

text \<open>
  Between two states: the calls made in between hold no update that names \<open>docId\<close>
  outside its insert-only part, and every stored document kept its document id (new
  documents come after the old ones).
\<close>

definition docIds_kept :: "state \<Rightarrow> state \<Rightarrow> bool" where
  "docIds_kept s s' =
     ((\<exists>new. calls s' = calls s @ new
         \<and> (\<forall>ops u. ProductBulkWrite ops \<in> set new \<longrightarrow> u \<in> set ops \<longrightarrow>
              (\<forall>a \<in> set (uo_set u). field_name a \<noteq> ''docId'')
              \<and> (\<forall>as. uo_setOnInsert u = Some as \<longrightarrow> map field_name as = [''docId''])))
      \<and> prefix (map p_docId (products s)) (map p_docId (products s')))"

text \<open>
  Between two states: every variant stored afterwards carries the currency \<open>EUR\<close> and is
  active, or was stored before (as it was, or written back in the store's encoding).
\<close>

definition variants_from :: "env \<Rightarrow> state \<Rightarrow> state \<Rightarrow> bool" where
  "variants_from E s s' =
     (\<forall>d' \<in> set (products s'). \<forall>v \<in> set (or_empty (p_variants d')).
        (v_currency v = ''EUR'' \<and> v_active v)
        \<or> (\<exists>d \<in> set (products s). \<exists>v0 \<in> set (or_empty (p_variants d)).
              v = v0 \<or> v = stored_variant (omitUndefined E) v0))"

text \<open>
  The rows of a stream cut into chunks of \<open>n\<close> rows, in order, and the rows left over at
  the end (fewer than \<open>n\<close>).
\<close>

definition full_chunks :: "nat \<Rightarrow> 'a list \<Rightarrow> 'a list list" where
  "full_chunks n xs = map (\<lambda>i. take n (drop (i * n) xs)) [0 ..< length xs div n]"

definition last_rows :: "nat \<Rightarrow> 'a list \<Rightarrow> 'a list" where
  "last_rows n xs = drop (n * (length xs div n)) xs"

text \<open>
  A chunk whose failure is contained: the state the chunk left, with the error logged
  when it failed.
\<close>

definition contained :: "env \<Rightarrow> string \<Rightarrow> state \<Rightarrow> row list \<Rightarrow> state" where
  "contained E label t c =
     (case processChunk E c t of
        (Inr _, t') \<Rightarrow> t'
      | (Inl e, t') \<Rightarrow> t'\<lparr>logged := logged t' @ [LogError (label @ message e)]\<rparr>)"


text \<open>
  A string that, after leading white space and an optional plus sign, goes on with
  decimal digits that are not all zero: the strings in which \<open>parseInt\<close> reads a
  positive number. What follows the digits is not looked at.
\<close>

definition positive_digit_prefix :: "string \<Rightarrow> bool" where
  "positive_digit_prefix s =
     (\<exists>ws sign ds rest. s = ws @ sign @ ds @ rest
        \<and> (\<forall>c \<in> set ws. isStrWhiteSpaceChar c) \<and> (sign = [] \<or> sign = ''+'')
        \<and> ds \<noteq> [] \<and> (\<forall>c \<in> set ds. isDecimalDigit c) \<and> (\<exists>c \<in> set ds. c \<noteq> CHR ''0''))"

section \<open>Basic facts\<close>

lemma bindA_returnA [simp]: "bindA (returnA x) f = f x"
  by (simp add: bindA_def returnA_def)

lemma bindA_throwA [simp]: "bindA (throwA e) f = throwA e"
  by (simp add: bindA_def throwA_def)

lemma catchA_returnA [simp]: "catchA (returnA x) h = returnA x"
  by (simp add: catchA_def returnA_def)

lemma bindA_apply: "bindA m f s = (case m s of (Inl e, s') \<Rightarrow> (Inl e, s') | (Inr x, s') \<Rightarrow> f x s')"
  by (simp add: bindA_def)

lemma constructVariant_eq:
  "constructVariant E r s = (Inr (variant_of_row E r (ids_drawn s)), s\<lparr>ids_drawn := ids_drawn s + 3\<rparr>)"
  by (simp add: constructVariant_def variant_of_row_def nanoid_def bindA_def returnA_def Let_def)

lemma parseBoolean_examples:
  "parseBoolean (Some ''3'')" "\<not> parseBoolean (Some ''0'')" "\<not> parseBoolean (Some ''-5'')"
  "\<not> parseBoolean (Some ''abc'')" "\<not> parseBoolean (Some [])" "\<not> parseBoolean None"
  "parseBoolean (Some '' 12 boxes'')" "parseBoolean (Some ''+7.5'')" "\<not> parseBoolean (Some ''0.9'')"
  by code_simp+

lemma map_of_map_set [simp]: "map_of (map_set m k v) = (map_of m)(k \<mapsto> v)"
  by (induction m) (auto simp: fun_eq_iff)

lemma keys_map_set: "map fst (map_set m k v) = keep_first (map fst m) k"
  by (induction m) (force simp: keep_first_def)+

lemma keys_map_set_present: "k \<in> fst ` set m \<Longrightarrow> map fst (map_set m k v) = map fst m"
  by (simp add: keys_map_set keep_first_def)

lemma distinct_keep_first: "distinct acc \<Longrightarrow> distinct (keep_first acc x)"
  by (simp add: keep_first_def)

lemma set_keep_first [simp]: "set (keep_first acc x) = insert x (set acc)"
  by (auto simp: keep_first_def)

lemma foldl_keep_first_distinct: "distinct acc \<Longrightarrow> distinct (foldl keep_first acc xs)"
  by (induction xs arbitrary: acc) (simp_all add: distinct_keep_first)

lemma foldl_keep_first_set [simp]: "set (foldl keep_first acc xs) = set acc \<union> set xs"
  by (induction xs arbitrary: acc) auto

lemma foldl_keep_first_append:
  "distinct acc \<Longrightarrow> foldl keep_first acc xs = acc @ foldl keep_first [] (filter (\<lambda>x. x \<notin> set acc) xs)"
proof (induction xs arbitrary: acc rule: rev_induct)
  case Nil
  then show ?case by simp
next
  case (snoc x xs)
  then show ?case by (auto simp: keep_first_def)
qed

lemma distinct_first_occurrences: "distinct (first_occurrences xs)"
  by (simp add: first_occurrences_def foldl_keep_first_distinct)

lemma set_first_occurrences: "set (first_occurrences xs) = set xs"
  by (simp add: first_occurrences_def)

lemma first_occurrences_distinct_id: "distinct xs \<Longrightarrow> first_occurrences xs = xs"
  unfolding first_occurrences_def
proof (induction xs rule: rev_induct)
  case Nil
  then show ?case by simp
next
  case (snoc x xs)
  then show ?case by (simp add: keep_first_def)
qed

lemma first_occurrences_append:
  "first_occurrences (xs @ ys)
     = first_occurrences xs @ first_occurrences (filter (\<lambda>y. y \<notin> set xs) ys)"
  using foldl_keep_first_append[of "first_occurrences xs" ys]
  by (simp add: first_occurrences_def foldl_keep_first_distinct)

lemma keys_fill: "map fst (foldl (\<lambda>m v. map_set m (v_sku v) v) m vs) = foldl keep_first (map fst m) (map v_sku vs)"
  by (induction vs arbitrary: m) (simp_all add: keys_map_set)

lemma keys_merge_step: "map fst (merge_step m v) = keep_first (map fst m) (v_sku v)"
  by (auto simp: merge_step_def keys_map_set keep_first_def split: option.splits dest: map_of_SomeD
        intro: rev_image_eqI)

lemma keys_merge: "map fst (foldl merge_step m vs) = foldl keep_first (map fst m) (map v_sku vs)"
  by (induction vs arbitrary: m) (simp_all add: keys_merge_step)

lemma set_map_set: "set (map_set m k v) \<subseteq> insert (k, v) (set m)"
  by (induction m) (auto split: if_splits)

lemma keyed_map_set: "keyed m V \<Longrightarrow> v \<in> V \<Longrightarrow> keyed (map_set m (v_sku v) v) V"
  using set_map_set[of m "v_sku v" v] by (auto simp: keyed_def)

lemma keyed_mono: "keyed m V \<Longrightarrow> V \<subseteq> W \<Longrightarrow> keyed m W"
  by (auto simp: keyed_def)

lemma keyed_fill:
  "keyed m V \<Longrightarrow> set vs \<subseteq> V \<Longrightarrow> keyed (foldl (\<lambda>m v. map_set m (v_sku v) v) m vs) V"
  by (induction vs arbitrary: m) (simp_all add: keyed_map_set)

lemma keyed_merge_step: "keyed m V \<Longrightarrow> v \<in> V \<Longrightarrow> keyed (merge_step m v) V"
  by (simp add: merge_step_def keyed_map_set split: option.splits)

lemma keyed_merge: "keyed m V \<Longrightarrow> set vs \<subseteq> V \<Longrightarrow> keyed (foldl merge_step m vs) V"
  by (induction vs arbitrary: m) (simp_all add: keyed_merge_step)

lemma keyed_skus: "keyed m V \<Longrightarrow> map v_sku (map snd m) = map fst m"
  by (induction m) (auto simp: keyed_def)

lemma keyed_values: "keyed m V \<Longrightarrow> set (map snd m) \<subseteq> V"
  by (auto simp: keyed_def)

lemma keyed_merged:
  "keyed (foldl merge_step (foldl (\<lambda>m v. map_set m (v_sku v) v) [] ex) inc) (set ex \<union> set inc)"
  by (intro keyed_merge keyed_fill) (simp_all add: keyed_def)

lemma mergeVariants_subset: "set (mergeVariants ex inc) \<subseteq> set ex \<union> set inc"
  unfolding mergeVariants_def Let_def by (rule keyed_values[OF keyed_merged])

lemma mergeVariants_skus:
  "map v_sku (mergeVariants ex inc) = first_occurrences (map v_sku ex @ map v_sku inc)"
proof -
  let ?M = "foldl merge_step (foldl (\<lambda>m v. map_set m (v_sku v) v) [] ex) inc"
  have "map v_sku (map snd ?M) = map fst ?M" by (rule keyed_skus[OF keyed_merged])
  also have "\<dots> = first_occurrences (map v_sku ex @ map v_sku inc)"
    by (simp add: keys_merge keys_fill first_occurrences_def)
  finally show ?thesis by (simp only: mergeVariants_def Let_def)
qed

lemma mergeVariants_distinct: "distinct (map v_sku (mergeVariants ex inc))"
  by (simp only: mergeVariants_skus distinct_first_occurrences)

text \<open>The value the map holds for a sku.\<close>

lemma lookup_fill:
  "map_of (foldl (\<lambda>m v. map_set m (v_sku v) v) m ex) k
     = (case prior_variant ex k of Some e \<Rightarrow> Some e | None \<Rightarrow> map_of m k)"
  by (induction ex rule: rev_induct) (simp_all add: prior_variant_def)

lemma lookup_fill_empty:
  "map_of (foldl (\<lambda>m v. map_set m (v_sku v) v) [] ex) k = prior_variant ex k"
  by (simp add: lookup_fill split: option.splits)

lemma lookup_merge_step_other: "v_sku v \<noteq> k \<Longrightarrow> map_of (merge_step m v) k = map_of m k"
  by (simp add: merge_step_def split: option.splits)

lemma lookup_merge_step_same:
  "map_of (merge_step m v) (v_sku v)
     = Some (case map_of m (v_sku v) of None \<Rightarrow> v
             | Some e \<Rightarrow> if isVariantUpdated e v then v else e)"
  by (simp add: merge_step_def split: option.splits)

lemma lookup_merge_absent:
  "k \<notin> v_sku ` set inc \<Longrightarrow> map_of (foldl merge_step m inc) k = map_of m k"
  by (induction inc arbitrary: m) (auto simp: lookup_merge_step_other)

lemma lookup_merge:
  "distinct (map v_sku inc) \<Longrightarrow>
   map_of (foldl merge_step m inc) k
     = (case find (\<lambda>i. v_sku i = k) inc of
          None \<Rightarrow> map_of m k
        | Some i \<Rightarrow> Some (case map_of m k of None \<Rightarrow> i
                          | Some e \<Rightarrow> if isVariantUpdated e i then i else e))"
proof (induction inc arbitrary: m)
  case Nil
  then show ?case by simp
next
  case (Cons v inc)
  show ?case
  proof (cases "v_sku v = k")
    case True
    with Cons.prems have "k \<notin> v_sku ` set inc" by auto
    then have "map_of (foldl merge_step (merge_step m v) inc) k = map_of (merge_step m v) k"
      by (rule lookup_merge_absent)
    with True show ?thesis by (simp add: lookup_merge_step_same[of m v, simplified True])
  next
    case False
    then have "map_of (merge_step m v) k = map_of m k" by (rule lookup_merge_step_other)
    with Cons False show ?thesis by (simp cong: option.case_cong)
  qed
qed

lemma mergeVariants_lookup:
  assumes "distinct (map v_sku inc)" "v \<in> set (mergeVariants ex inc)"
  shows "(case find (\<lambda>i. v_sku i = v_sku v) inc of
            None \<Rightarrow> prior_variant ex (v_sku v)
          | Some i \<Rightarrow> Some (case prior_variant ex (v_sku v) of None \<Rightarrow> i
                            | Some e \<Rightarrow> if isVariantUpdated e i then i else e)) = Some v"
proof -
  let ?M = "foldl merge_step (foldl (\<lambda>m v. map_set m (v_sku v) v) [] ex) inc"
  have k: "keyed ?M (set ex \<union> set inc)" by (rule keyed_merged)
  from assms(2) obtain k where "(k, v) \<in> set ?M"
    by (auto simp: mergeVariants_def Let_def)
  moreover from this k have "k = v_sku v" by (auto simp: keyed_def)
  moreover have "distinct (map fst ?M)"
    by (simp add: keys_merge keys_fill foldl_keep_first_distinct)
  ultimately have "map_of ?M (v_sku v) = Some v" by simp
  then show ?thesis
    unfolding lookup_merge[OF assms(1)] lookup_fill_empty .
qed

lemma isVariantUpdated_iff:
  "v_price i \<noteq> NaN \<Longrightarrow>
   isVariantUpdated e i
     = (v_price e \<noteq> v_price i \<or> v_available e \<noteq> v_available i \<or> v_description e \<noteq> v_description i)"
  by (auto simp: isVariantUpdated_def strict_neq_number_def)

lemma constructVariant_price: "v_price (variant_of_row E r n) \<noteq> NaN"
  by (simp add: variant_of_row_def parseNumber_def isNaN_def Let_def)

section \<open>Reasoning about actions\<close>

lemma invD: "inv I m \<Longrightarrow> I s \<Longrightarrow> m s = (r, s') \<Longrightarrow> I s'"
  by (auto simp: inv_def)

lemma inv_returnA: "inv I (returnA x)"
  by (simp add: inv_def returnA_def)

lemma inv_throwA: "inv I (throwA e)"
  by (simp add: inv_def throwA_def)

lemma inv_bindA: "inv I m \<Longrightarrow> (\<And>x. inv I (f x)) \<Longrightarrow> inv I (bindA m f)"
  unfolding inv_def bindA_def
  by (auto split: sum.splits prod.splits)

lemma inv_catchA: "inv I m \<Longrightarrow> (\<And>e. inv I (h e)) \<Longrightarrow> inv I (catchA m h)"
  unfolding inv_def catchA_def
  by (auto split: sum.splits prod.splits)

lemma inv_foldA: "(\<And>acc x. x \<in> set xs \<Longrightarrow> inv I (f acc x)) \<Longrightarrow> inv I (foldA f a xs)"
  by (induction xs arbitrary: a) (simp_all add: inv_returnA inv_bindA)

lemma inv_if: "(b \<Longrightarrow> inv I m) \<Longrightarrow> (\<not> b \<Longrightarrow> inv I m') \<Longrightarrow> inv I (if b then m else m')"
  by simp

lemma inv_case_option:
  "(v = None \<Longrightarrow> inv I m) \<Longrightarrow> (\<And>x. v = Some x \<Longrightarrow> inv I (f x))
   \<Longrightarrow> inv I (case v of None \<Rightarrow> m | Some x \<Rightarrow> f x)"
  by (cases v) simp_all

lemma inv_logA: "(\<And>s. I s \<Longrightarrow> I (s\<lparr>logged := logged s @ [l]\<rparr>)) \<Longrightarrow> inv I (logA l)"
  by (simp add: inv_def logA_def)

lemma inv_nanoid: "(\<And>s. I s \<Longrightarrow> I (s\<lparr>ids_drawn := Suc (ids_drawn s)\<rparr>)) \<Longrightarrow> inv I (nanoid E)"
  by (simp add: inv_def nanoid_def)

lemma inv_db_read: "(\<And>s. I s \<Longrightarrow> I (s\<lparr>calls := calls s @ [c]\<rparr>)) \<Longrightarrow> inv I (db_read E c f)"
  by (simp add: inv_def db_read_def Let_def)

lemma inv_db_write:
  "(\<And>s. I s \<Longrightarrow> I (s\<lparr>calls := calls s @ [c]\<rparr>)) \<Longrightarrow>
   (\<And>s. I s \<Longrightarrow> I (g (s\<lparr>calls := calls s @ [c]\<rparr>))) \<Longrightarrow> inv I (db_write E c g)"
  by (simp add: inv_def db_write_def Let_def)

lemma inv_nanoid': "ignores_ids I \<Longrightarrow> inv I (nanoid E)"
  by (rule inv_nanoid) (simp add: ignores_ids_def)

lemma inv_logA': "ignores_log I \<Longrightarrow> inv I (logA l)"
  by (rule inv_logA) (simp add: ignores_log_def)

lemma inv_constructVariant: "ignores_ids I \<Longrightarrow> inv I (constructVariant E r)"
  unfolding constructVariant_def Let_def
  by (intro inv_bindA inv_returnA inv_nanoid')

lemma inv_generateOptions: "ignores_ids I \<Longrightarrow> inv I (generateOptions E r)"
  unfolding generateOptions_def
  by (intro inv_bindA inv_returnA inv_nanoid')

lemma inv_enhanceDescription: "inv I (enhanceDescription name d)"
  by (simp add: inv_def enhanceDescription_def catchA_def returnA_def)

lemma inv_group_step:
  "ignores_ids I \<Longrightarrow> ignores_log I \<Longrightarrow> inv I (group_step E acc r)"
  unfolding group_step_def Let_def
  by (auto split: option.splits intro!: inv_bindA inv_returnA inv_throwA inv_logA' inv_constructVariant)

lemma inv_grouping:
  "ignores_ids I \<Longrightarrow> ignores_log I \<Longrightarrow> inv I (foldA (group_step E) acc chunk)"
  by (rule inv_foldA) (rule inv_group_step)

lemma inv_checkVendor:
  "ignores_ids I \<Longrightarrow> accepts_calls I \<Longrightarrow> accepts_vendors I \<Longrightarrow> inv I (checkVendor E k)"
  unfolding checkVendor_def Let_def
  by (auto split: option.splits simp: accepts_calls_def accepts_vendors_def
        intro!: inv_bindA inv_returnA inv_nanoid' inv_db_read inv_db_write inv_case_option)

lemma inv_ensureManufacturer:
  "accepts_calls I \<Longrightarrow> accepts_manufacturers I \<Longrightarrow> inv I (ensureManufacturer E k n)"
  unfolding ensureManufacturer_def Let_def
  by (auto split: option.splits simp: accepts_calls_def accepts_manufacturers_def
        intro!: inv_bindA inv_returnA inv_db_read inv_db_write inv_case_option)

lemma inv_new_productDoc: "ignores_ids I \<Longrightarrow> inv I (new_productDoc E pid r vs vid mid)"
  unfolding new_productDoc_def Let_def
  by (intro inv_bindA inv_returnA inv_nanoid' inv_generateOptions inv_if inv_enhanceDescription)

lemma inv_process_group:
  assumes "ignores_ids I" "ignores_log I" "accepts_calls I" "accepts_vendors I"
    "accepts_manufacturers I"
  shows "inv I (process_group E ex gd pid)"
  unfolding process_group_def ensure_docId_def setOnInsert_for_def
  by (intro inv_case_option inv_bindA inv_returnA inv_throwA inv_if inv_nanoid' inv_logA'
        inv_checkVendor inv_ensureManufacturer inv_new_productDoc assms)

lemma inv_loop:
  assumes "ignores_ids I" "ignores_log I" "accepts_calls I" "accepts_vendors I"
    "accepts_manufacturers I"
  shows "inv I (collect_bulkOps E ex gd acc pids)"
  unfolding collect_bulkOps_def
  by (intro inv_foldA inv_bindA inv_returnA inv_process_group assms)

lemma bindA_InrE:
  assumes "bindA m f s = (Inr y, s')"
  obtains x s1 where "m s = (Inr x, s1)" "f x s1 = (Inr y, s')"
  using assms by (auto simp: bindA_def split: sum.splits prod.splits)

lemma returnA_InrE:
  assumes "returnA x s = (Inr y, s')"
  obtains "y = x" "s' = s"
  using assms by (simp add: returnA_def)

lemma throwA_InrE:
  assumes "throwA e s = (Inr y, s')"
  shows P
  using assms by (simp add: throwA_def)

lemma new_productDoc_variants:
  "new_productDoc E pid r vs vid mid s = (Inr pd, s') \<Longrightarrow> p_variants pd = Some vs"
  unfolding new_productDoc_def generateOptions_def enhanceDescription_def Let_def
  by (auto simp: bindA_def nanoid_def returnA_def catchA_def split: if_splits)

lemma ensure_docId_result:
  "ensure_docId E pid pd0 s = (r, s') \<Longrightarrow>
   \<exists>pd. r = Inr pd \<and> set_part pd = set_part pd0 \<and> p_variants pd = p_variants pd0
     \<and> (falsy (p_docId pd0) \<or> pd = pd0)
     \<and> products s' = products s \<and> vendors s' = vendors s \<and> manufacturers s' = manufacturers s"
  by (auto simp: ensure_docId_def bindA_def logA_def nanoid_def returnA_def set_part_def
        split: if_splits)

lemma setOnInsert_for_result:
  "setOnInsert_for E existing pd s = (r, s') \<Longrightarrow>
   \<exists>soi. r = Inr soi \<and> (soi = None) = existing
     \<and> (\<not> existing \<longrightarrow> (\<exists>i. soi = Some [Set_docId (Some i)]))
     \<and> products s' = products s \<and> vendors s' = vendors s \<and> manufacturers s' = manufacturers s"
  by (auto simp: setOnInsert_for_def bindA_def nanoid_def returnA_def falsy_def
        split: if_splits option.splits)

lemma process_group_op_spec:
  assumes "process_group E ex gd pid s = (Inr u, s')"
  shows "op_spec ex gd pid u"
proof (cases "map_of gd pid")
  case None
  with assms show ?thesis by (simp add: process_group_def throwA_def)
next
  case (Some g)
  from assms[unfolded process_group_def Some option.case]
  obtain vid s1 mid s2 pd0 s3 pd s4 soi s5 where
    doc0: "(case existing_get ex pid of
                   Some existingProduct \<Rightarrow>
                     returnA (updated_productDoc existingProduct (g_row g) (g_variants g) vid mid)
                 | None \<Rightarrow> new_productDoc E pid (g_row g) (g_variants g) vid mid) s2 = (Inr pd0, s3)"
    and doc: "ensure_docId E pid pd0 s3 = (Inr pd, s4)"
    and soi: "setOnInsert_for E (existing_get ex pid \<noteq> None) pd s4 = (Inr soi, s5)"
    and u: "u = \<lparr>uo_filter_productID = pid, uo_set = set_part pd, uo_setOnInsert = soi,
                 uo_upsert = True\<rparr>"
    by (elim bindA_InrE returnA_InrE) auto
  have v0: "p_variants pd0 = Some (case existing_get ex pid of
                          None \<Rightarrow> g_variants g
                        | Some d \<Rightarrow> mergeVariants (or_empty (p_variants d)) (g_variants g))"
    using doc0
    by (auto split: option.splits simp: returnA_def updated_productDoc_def
          dest: new_productDoc_variants)
  have v: "p_variants pd = p_variants pd0"
    using ensure_docId_result[OF doc] by auto
  have s: "case existing_get ex pid of
            Some d \<Rightarrow> soi = None
          | None \<Rightarrow> (\<exists>i. soi = Some [Set_docId (Some i)])"
    using setOnInsert_for_result[OF soi] by (auto split: option.splits)
  show ?thesis
    unfolding op_spec_def using Some v0 v s u by (auto split: option.splits)
qed

lemma loop_ops:
  "collect_bulkOps E ex gd acc pids s = (Inr ops, s')
   \<Longrightarrow> \<exists>new. ops = acc @ new \<and> list_all2 (op_spec ex gd) pids new"
  unfolding collect_bulkOps_def
proof (induction pids arbitrary: acc s)
  case Nil
  then show ?case by (simp add: returnA_def)
next
  case (Cons pid pids)
  from Cons.prems obtain u s1 where
    u: "process_group E ex gd pid s = (Inr u, s1)"
    and rest: "foldA (\<lambda>bulkOps productID.
            bindA (process_group E ex gd productID) (\<lambda>u. returnA (bulkOps @ [u])))
     (acc @ [u]) pids s1 = (Inr ops, s')"
    by (auto elim!: bindA_InrE returnA_InrE)
  from Cons.IH[OF rest] obtain new where "ops = (acc @ [u]) @ new" "list_all2 (op_spec ex gd) pids new"
    by blast
  with process_group_op_spec[OF u] show ?case by auto
qed

text \<open>The ways \<open>processChunk\<close> can run.\<close>

lemma processChunk_cases:
  assumes "processChunk E chunk s = (r, s')"
  obtains
    (grouping_fails) e where "foldA (group_step E) [] chunk s = (Inl e, s')" "r = Inl e"
  | (find_fails) gd s1 e where
      "foldA (group_step E) [] chunk s = (Inr gd, s1)"
      "s' = s1\<lparr>calls := calls s1 @ [ProductFind (object_keys (map fst gd))]\<rparr>" "r = Inl e"
  | (loop_fails) gd s1 e where
      "foldA (group_step E) [] chunk s = (Inr gd, s1)"
      "collect_bulkOps E (find_in (object_keys (map fst gd)) (products s1)) gd []
         (object_keys (map fst gd))
         (s1\<lparr>calls := calls s1 @ [ProductFind (object_keys (map fst gd))]\<rparr>) = (Inl e, s')"
      "r = Inl e"
  | (nothing_to_write) gd s1 where
      "foldA (group_step E) [] chunk s = (Inr gd, s1)"
      "collect_bulkOps E (find_in (object_keys (map fst gd)) (products s1)) gd []
         (object_keys (map fst gd))
         (s1\<lparr>calls := calls s1 @ [ProductFind (object_keys (map fst gd))]\<rparr>) = (Inr [], s')"
      "r = Inr ()"
  | (write_fails) gd s1 bulkOps s3 e where
      "foldA (group_step E) [] chunk s = (Inr gd, s1)"
      "collect_bulkOps E (find_in (object_keys (map fst gd)) (products s1)) gd []
         (object_keys (map fst gd))
         (s1\<lparr>calls := calls s1 @ [ProductFind (object_keys (map fst gd))]\<rparr>) = (Inr bulkOps, s3)"
      "bulkOps \<noteq> []"
      "s' = s3\<lparr>calls := calls s3 @ [ProductBulkWrite bulkOps],
               logged := logged s3 @ [LogError ''Error on bulk insertion'']\<rparr>"
      "r = Inl e"
  | (written) gd s1 bulkOps s3 where
      "foldA (group_step E) [] chunk s = (Inr gd, s1)"
      "collect_bulkOps E (find_in (object_keys (map fst gd)) (products s1)) gd []
         (object_keys (map fst gd))
         (s1\<lparr>calls := calls s1 @ [ProductFind (object_keys (map fst gd))]\<rparr>) = (Inr bulkOps, s3)"
      "bulkOps \<noteq> []"
      "s' = s3\<lparr>calls := calls s3 @ [ProductBulkWrite bulkOps],
               products := bulkWrite_apply (omitUndefined E) bulkOps (products s3)\<rparr>"
      "r = Inr ()"
proof -
  obtain rg s1 where g: "foldA (group_step E) [] chunk s = (rg, s1)" by (cases "foldA (group_step E) [] chunk s")
  show thesis
  proof (cases rg)
    case (Inl e)
    with g assms show thesis by (intro grouping_fails[of e]) (auto simp: processChunk_def bindA_def)
  next
    case (Inr gd)
    let ?pids = "object_keys (map fst gd)"
    let ?s2 = "s1\<lparr>calls := calls s1 @ [ProductFind ?pids]\<rparr>"
    let ?ex = "find_in ?pids (products s1)"
    let ?loop = "collect_bulkOps E ?ex gd [] ?pids"
    show thesis
    proof (cases "outage E (length (calls s1))")
      case True
      with g Inr assms show thesis
        by (intro find_fails[of gd s1]) (auto simp: processChunk_def bindA_def db_read_def Let_def)
    next
      case False
      obtain rl s3 where l: "?loop ?s2 = (rl, s3)" by (cases "?loop ?s2")
      have pc: "processChunk E chunk s =
          (case rl of Inl e \<Rightarrow> (Inl e, s3)
           | Inr bulkOps \<Rightarrow>
               (if length bulkOps > 0
               then catchA (db_write E (ProductBulkWrite bulkOps)
                              (\<lambda>s. s\<lparr>products :=
                                       bulkWrite_apply (omitUndefined E) bulkOps (products s)\<rparr>))
                      (\<lambda>error. bindA (logA (LogError ''Error on bulk insertion''))
                                  (\<lambda>_. throwA error))
               else returnA ()) s3)"
        using g Inr False l
        by (simp add: processChunk_def bindA_def db_read_def Let_def split: sum.splits)
      show thesis
      proof (cases rl)
        case (Inl e)
        with pc assms l g Inr show thesis by (intro loop_fails[of gd s1 e]) auto
      next
        case ops: (Inr bulkOps)
        show thesis
        proof (cases "bulkOps = []")
          case True
          with pc assms l g Inr ops show thesis
            by (intro nothing_to_write[of gd s1]) (auto simp: returnA_def)
        next
          case ne: False
          show thesis
          proof (cases "outage E (length (calls s3))")
            case True
            with pc assms l g Inr ops ne show thesis
              by (intro write_fails[of gd s1 bulkOps s3])
                 (auto simp: catchA_def db_write_def bindA_def logA_def throwA_def Let_def)
          next
            case False
            with pc assms l g Inr ops ne show thesis
              by (intro written[of gd s1 bulkOps s3])
                 (auto simp: catchA_def db_write_def bindA_def logA_def throwA_def Let_def)
          qed
        qed
      qed
    qed
  qed
qed

section \<open>Chunks, batched writes and the driver\<close>

text \<open>Updates that do not name the document id, and what they do to a collection.\<close>

lemma apply_assign_docId:
  "field_name a \<noteq> ''docId'' \<Longrightarrow> p_docId (apply_assign omit d a) = p_docId d"
  by (cases a) simp_all

lemma foldl_apply_assign_docId:
  "\<forall>a \<in> set as. field_name a \<noteq> ''docId'' \<Longrightarrow> p_docId (foldl (apply_assign omit) d as) = p_docId d"
  by (induction as arbitrary: d) (simp_all add: apply_assign_docId)

lemma updateOne_apply_docIds:
  "\<forall>a \<in> set (uo_set u). field_name a \<noteq> ''docId'' \<Longrightarrow>
   prefix (map p_docId ds) (map p_docId (updateOne_apply omit ds u))"
  by (induction ds) (simp_all add: foldl_apply_assign_docId)

lemma bulkWrite_apply_docIds:
  "\<forall>u \<in> set ops. \<forall>a \<in> set (uo_set u). field_name a \<noteq> ''docId'' \<Longrightarrow>
   prefix (map p_docId ds) (map p_docId (bulkWrite_apply omit ops ds))"
  unfolding bulkWrite_apply_def
proof (induction ops arbitrary: ds)
  case Nil
  show ?case by simp
next
  case (Cons u ops)
  have "prefix (map p_docId ds) (map p_docId (updateOne_apply omit ds u))"
    using Cons.prems by (simp add: updateOne_apply_docIds)
  moreover have "prefix (map p_docId (updateOne_apply omit ds u))
                   (map p_docId (foldl (updateOne_apply omit) (updateOne_apply omit ds u) ops))"
    using Cons.prems by (intro Cons.IH) simp
  ultimately show ?case by (auto intro: prefix_order.trans)
qed

lemma set_part_no_docId: "\<forall>a \<in> set (set_part pd). field_name a \<noteq> ''docId''"
  by (simp add: set_part_def)

lemma op_spec_no_docId:
  "op_spec ex gd pid u \<Longrightarrow> \<forall>a \<in> set (uo_set u). field_name a \<noteq> ''docId''"
  by (auto simp: op_spec_def set_part_def)

lemma op_spec_setOnInsert:
  "op_spec ex gd pid u \<Longrightarrow> uo_setOnInsert u = Some as \<Longrightarrow> map field_name as = [''docId'']"
  by (auto simp: op_spec_def split: option.splits)

text \<open>Variants of the documents of a collection.\<close>

lemma apply_assign_variants:
  "set (or_empty (p_variants d)) \<subseteq> W \<Longrightarrow>
   (\<And>vs v. a = Set_variants (Some vs) \<Longrightarrow> v \<in> set vs \<Longrightarrow> stored_variant omit v \<in> W) \<Longrightarrow>
   set (or_empty (p_variants (apply_assign omit d a))) \<subseteq> W"
  by (cases a) (auto simp: upd_def or_empty_def split: option.splits)

lemma foldl_apply_assign_variants:
  "set (or_empty (p_variants d)) \<subseteq> W \<Longrightarrow>
   (\<And>vs v. Set_variants (Some vs) \<in> set as \<Longrightarrow> v \<in> set vs \<Longrightarrow> stored_variant omit v \<in> W) \<Longrightarrow>
   set (or_empty (p_variants (foldl (apply_assign omit) d as))) \<subseteq> W"
proof (induction as arbitrary: d)
  case Nil
  then show ?case by simp
next
  case (Cons a as)
  have "set (or_empty (p_variants (apply_assign omit d a))) \<subseteq> W"
    using Cons.prems by (intro apply_assign_variants) auto
  then have "set (or_empty (p_variants (foldl (apply_assign omit) (apply_assign omit d a) as))) \<subseteq> W"
    by (rule Cons.IH) (use Cons.prems in auto)
  then show ?case by simp
qed

lemma inserted_document_variants:
  "op_variants_within V u \<Longrightarrow> \<forall>v \<in> V. stored_variant omit v \<in> W \<Longrightarrow>
   set (or_empty (p_variants (inserted_document omit u))) \<subseteq> W"
  unfolding inserted_document_def
  by (intro foldl_apply_assign_variants)
     (auto simp: op_variants_within_def blank_product_def or_empty_def split: option.splits)

lemma updateOne_apply_variants:
  "\<forall>d \<in> set ds. set (or_empty (p_variants d)) \<subseteq> W \<Longrightarrow> op_variants_within V u \<Longrightarrow>
   \<forall>v \<in> V. stored_variant omit v \<in> W \<Longrightarrow>
   \<forall>d \<in> set (updateOne_apply omit ds u). set (or_empty (p_variants d)) \<subseteq> W"
proof (induction ds)
  case Nil
  then show ?case by (simp add: inserted_document_variants)
next
  case (Cons d ds)
  have "set (or_empty (p_variants (foldl (apply_assign omit) d (uo_set u)))) \<subseteq> W"
    using Cons.prems by (intro foldl_apply_assign_variants) (auto simp: op_variants_within_def)
  with Cons show ?case by simp
qed

lemma bulkWrite_apply_variants:
  "\<forall>d \<in> set ds. set (or_empty (p_variants d)) \<subseteq> W \<Longrightarrow> \<forall>u \<in> set ops. op_variants_within V u \<Longrightarrow>
   \<forall>v \<in> V. stored_variant omit v \<in> W \<Longrightarrow>
   \<forall>d \<in> set (bulkWrite_apply omit ops ds). set (or_empty (p_variants d)) \<subseteq> W"
  unfolding bulkWrite_apply_def
proof (induction ops arbitrary: ds)
  case Nil
  then show ?case by simp
next
  case (Cons u ops)
  have "\<forall>d \<in> set (updateOne_apply omit ds u). set (or_empty (p_variants d)) \<subseteq> W"
    using Cons.prems by (intro updateOne_apply_variants[where V = V]) simp_all
  then have "\<forall>d \<in> set (foldl (updateOne_apply omit) (updateOne_apply omit ds u) ops).
               set (or_empty (p_variants d)) \<subseteq> W"
    using Cons.prems by (intro Cons.IH) simp_all
  then show ?case by simp
qed

lemma map_set_keys_present:
  "map_of m k = Some g \<Longrightarrow> map fst (map_set m k v) = map fst m"
  by (induction m) (auto split: if_splits)

lemma group_step_built:
  assumes "group_step E acc r s = (Inr acc', s')" "groups_built E chunk acc" "r \<in> set chunk"
  shows "groups_built E chunk acc'"
proof (cases "\<exists>p i. r ''ProductID'' = Some p \<and> r ''ItemID'' = Some i \<and> p \<noteq> [] \<and> i \<noteq> []")
  case False
  with assms(1) have "acc' = acc"
    by (auto simp: group_step_def bindA_def logA_def returnA_def split: option.splits if_splits)
  with assms(2) show ?thesis by simp
next
  case True
  then obtain p i where pi: "r ''ProductID'' = Some p" "r ''ItemID'' = Some i" "p \<noteq> []" "i \<noteq> []"
    by blast
  define acc1 where "acc1 = (if map_of acc p = None \<and> p \<notin> set object_prototype_keys
                    then acc @ [(p, \<lparr>g_row = r, g_variants = []\<rparr>)] else acc)"
  have b1: "groups_built E chunk acc1"
    using assms(2) unfolding acc1_def groups_built_def
    by (auto simp: map_of_eq_None_iff)
  from assms(1) pi obtain g where
    g: "map_of acc1 p = Some g"
    and acc': "acc' = map_set acc1 p (g\<lparr>g_variants := g_variants g @ [variant_of_row E r (ids_drawn s)]\<rparr>)"
    by (auto simp: group_step_def Let_def acc1_def[symmetric] bindA_def constructVariant_eq
          returnA_def throwA_def split: option.splits)
  have keys: "map fst acc' = map fst acc1" unfolding acc' using g by (rule map_set_keys_present)
  have "built_from E chunk (variant_of_row E r (ids_drawn s))"
    using assms(3) by (auto simp: built_from_def)
  moreover from g have "(p, g) \<in> set acc1" by (rule map_of_SomeD)
  ultimately have "\<forall>(k, g) \<in> set acc'. \<forall>v \<in> set (g_variants g). built_from E chunk v"
    using b1 set_map_set[of acc1 p "g\<lparr>g_variants := g_variants g @ [variant_of_row E r (ids_drawn s)]\<rparr>"]
    unfolding acc' groups_built_def by fastforce
  with b1 keys show ?thesis by (simp add: groups_built_def)
qed

lemma grouping_built_gen:
  "foldA (group_step E) acc rs s = (Inr gd, s') \<Longrightarrow> groups_built E chunk acc \<Longrightarrow>
   set rs \<subseteq> set chunk \<Longrightarrow> groups_built E chunk gd"
proof (induction rs arbitrary: acc s)
  case Nil
  then show ?case by (simp add: returnA_def)
next
  case (Cons r rs)
  from Cons.prems(1) obtain acc1 s1 where
    1: "group_step E acc r s = (Inr acc1, s1)" and 2: "foldA (group_step E) acc1 rs s1 = (Inr gd, s')"
    by (auto elim: bindA_InrE)
  from 1 Cons.prems have "groups_built E chunk acc1" by (intro group_step_built[OF 1]) auto
  with 2 Cons show ?case by auto
qed

lemma grouping_built:
  "foldA (group_step E) [] chunk s = (Inr gd, s') \<Longrightarrow> groups_built E chunk gd"
  by (erule grouping_built_gen) (simp_all add: groups_built_def)

text \<open>What \<open>processChunk\<close> does to the product collection and to the record of calls.\<close>

lemma inv_processChunk:
  assumes "ignores_ids I" "ignores_log I" "accepts_vendors I" "accepts_manufacturers I"
    and c: "\<And>s c. I s \<Longrightarrow> I (s\<lparr>calls := calls s @ [c]\<rparr>)"
    and p: "\<And>s ds. I s \<Longrightarrow> I (s\<lparr>products := ds\<rparr>)"
  shows "inv I (processChunk E chunk)"
proof -
  have a: "accepts_calls I" using c by (simp add: accepts_calls_def)
  show ?thesis
    unfolding processChunk_def Let_def
    by (intro inv_bindA inv_grouping inv_db_read inv_loop inv_if inv_catchA inv_db_write
          inv_logA' inv_throwA inv_returnA assms a c p) 
qed

lemma products_after_grouping:
  assumes "foldA (group_step E) acc chunk s = (r, s1)"
  shows "products s1 = products s \<and> calls s1 = calls s"
proof -
  have "inv (\<lambda>t. products t = products s \<and> calls t = calls s) (foldA (group_step E) acc chunk)"
    by (intro inv_grouping) (simp_all add: ignores_ids_def ignores_log_def)
  from invD[OF this _ assms] show ?thesis by simp
qed

lemma products_after_loop:
  assumes "collect_bulkOps E ex gd acc pids s = (r, s1)"
  shows "products s1 = products s"
proof -
  have "inv (\<lambda>t. products t = products s) (collect_bulkOps E ex gd acc pids)"
    by (intro inv_loop)
       (simp_all add: ignores_ids_def ignores_log_def accepts_calls_def
          accepts_vendors_def accepts_manufacturers_def)
  from invD[OF this _ assms] show ?thesis by simp
qed

lemma calls_after_loop:
  assumes "collect_bulkOps E ex gd acc pids s = (r, s1)"
  shows "\<exists>new. calls s1 = calls s @ new \<and> no_bulkWrite new"
proof -
  have "inv (\<lambda>t. \<exists>new. calls t = calls s @ new \<and> no_bulkWrite new)
          (collect_bulkOps E ex gd acc pids)"
    by (intro inv_loop)
       (auto simp: ignores_ids_def ignores_log_def accepts_calls_def
          accepts_vendors_def accepts_manufacturers_def no_bulkWrite_def)
  from invD[OF this _ assms] show ?thesis by (simp add: no_bulkWrite_def)
qed

lemma processChunk_products:
  assumes "processChunk E chunk s = (r, s')"
  shows "products s' = products s
     \<or> (\<exists>gd ops. groups_built E chunk gd
           \<and> list_all2 (op_spec (find_in (object_keys (map fst gd)) (products s)) gd)
                (object_keys (map fst gd)) ops
           \<and> products s' = bulkWrite_apply (omitUndefined E) ops (products s))"
  using assms
proof (cases rule: processChunk_cases)
  case (grouping_fails e)
  then show ?thesis by (simp add: products_after_grouping)
next
  case (find_fails gd s1 e)
  then show ?thesis by (simp add: products_after_grouping)
next
  case (loop_fails gd s1 e)
  then show ?thesis by (auto dest!: products_after_grouping products_after_loop)
next
  case (nothing_to_write gd s1)
  then show ?thesis by (auto dest!: products_after_grouping products_after_loop)
next
  case (write_fails gd s1 bulkOps s3 e)
  then show ?thesis by (auto dest!: products_after_grouping products_after_loop)
next
  case (written gd s1 bulkOps s3)
  from written(1) have 1: "products s1 = products s" by (simp add: products_after_grouping)
  from written(2) have 3: "products s3 = products s" using 1 by (auto dest!: products_after_loop)
  from written(2) have "list_all2 (op_spec (find_in (object_keys (map fst gd)) (products s1)) gd)
                (object_keys (map fst gd)) bulkOps"
    by (auto dest!: loop_ops)
  with 1 3 written(1,4) show ?thesis by (auto dest: grouping_built)
qed

lemma processChunk_calls:
  assumes "processChunk E chunk s = (r, s')"
  shows "\<exists>new. calls s' = calls s @ new
     \<and> (\<forall>ops. ProductBulkWrite ops \<in> set new \<longrightarrow> (\<exists>ex gd pids. list_all2 (op_spec ex gd) pids ops))"
  using assms
proof (cases rule: processChunk_cases)
  case (grouping_fails e)
  then show ?thesis by (simp add: products_after_grouping)
next
  case (find_fails gd s1 e)
  then show ?thesis by (auto dest!: products_after_grouping)
next
  case (loop_fails gd s1 e)
  then show ?thesis
    by (auto dest!: products_after_grouping calls_after_loop simp: no_bulkWrite_def)
next
  case (nothing_to_write gd s1)
  then show ?thesis
    by (auto dest!: products_after_grouping calls_after_loop simp: no_bulkWrite_def)
next
  case (write_fails gd s1 bulkOps s3 e)
  from write_fails(2) have ops: "list_all2 (op_spec (find_in (object_keys (map fst gd)) (products s1)) gd)
                (object_keys (map fst gd)) bulkOps"
    by (auto dest!: loop_ops)
  from write_fails(1,2) obtain new where
    "calls s3 = calls s @ [ProductFind (object_keys (map fst gd))] @ new" "no_bulkWrite new"
    by (auto dest!: products_after_grouping calls_after_loop)
  with write_fails(4) ops show ?thesis by (auto simp: no_bulkWrite_def)
next
  case (written gd s1 bulkOps s3)
  from written(2) have ops: "list_all2 (op_spec (find_in (object_keys (map fst gd)) (products s1)) gd)
                (object_keys (map fst gd)) bulkOps"
    by (auto dest!: loop_ops)
  from written(1,2) obtain new where
    "calls s3 = calls s @ [ProductFind (object_keys (map fst gd))] @ new" "no_bulkWrite new"
    by (auto dest!: products_after_grouping calls_after_loop)
  with written(4) ops show ?thesis by (auto simp: no_bulkWrite_def)
qed

lemma list_all2_op_spec_D:
  "list_all2 (op_spec ex gd) pids ops \<Longrightarrow> u \<in> set ops \<Longrightarrow> \<exists>pid. pid \<in> set pids \<and> op_spec ex gd pid u"
  by (auto simp: list_all2_conv_all_nth in_set_conv_nth)

lemma processChunk_docIds_kept:
  assumes "processChunk E chunk s = (r, s')"
  shows "docIds_kept s s'"
proof -
  from processChunk_calls[OF assms] obtain new where
    new: "calls s' = calls s @ new"
      "\<forall>ops. ProductBulkWrite ops \<in> set new \<longrightarrow> (\<exists>ex gd pids. list_all2 (op_spec ex gd) pids ops)"
    by blast
  have "\<forall>ops u. ProductBulkWrite ops \<in> set new \<longrightarrow> u \<in> set ops \<longrightarrow>
              (\<forall>a \<in> set (uo_set u). field_name a \<noteq> ''docId'')
              \<and> (\<forall>as. uo_setOnInsert u = Some as \<longrightarrow> map field_name as = [''docId''])"
    using new(2) by (meson list_all2_op_spec_D op_spec_no_docId op_spec_setOnInsert)
  moreover have "prefix (map p_docId (products s)) (map p_docId (products s'))"
  proof -
    have "\<forall>u \<in> set ops. \<forall>a \<in> set (uo_set u). field_name a \<noteq> ''docId''"
      if "list_all2 (op_spec ex gd) pids ops" for ex gd pids ops
      using that by (meson list_all2_op_spec_D op_spec_no_docId)
    then show ?thesis
      using processChunk_products[OF assms] by (auto intro!: bulkWrite_apply_docIds)
  qed
  ultimately show ?thesis using new(1) by (auto simp: docIds_kept_def)
qed


section \<open>Variants of stored products\<close>

lemma find_mem: "find P xs = Some x \<Longrightarrow> x \<in> set xs \<and> P x"
  by (induction xs) (auto split: if_splits)

lemma existing_get_mem: "existing_get ex pid = Some d \<Longrightarrow> d \<in> set ex"
  by (auto simp: existing_get_def dest: find_mem)

lemma find_in_subset: "set (find_in pids ds) \<subseteq> set ds"
  by (auto simp: find_in_def)

lemma built_from_good: "built_from E chunk v \<Longrightarrow> v_currency v = ''EUR'' \<and> v_active v"
  by (auto simp: built_from_def variant_of_row_def)

lemma set_part_variants: "Set_variants x \<in> set (set_part pd) \<Longrightarrow> x = p_variants pd"
  by (auto simp: set_part_def)

lemma op_spec_variants_within:
  assumes "groups_built E chunk gd" "op_spec (find_in pids ds) gd pid u"
  shows "op_variants_within
           ({v. v_currency v = ''EUR'' \<and> v_active v} \<union> (\<Union>d \<in> set ds. set (or_empty (p_variants d)))) u"
proof -
  let ?V = "{v. v_currency v = ''EUR'' \<and> v_active v} \<union> (\<Union>d \<in> set ds. set (or_empty (p_variants d)))"
  from assms(2) obtain pd g where
    g: "map_of gd pid = Some g" and u: "uo_set u = set_part pd"
    and v: "p_variants pd = Some (case existing_get (find_in pids ds) pid of
                          None \<Rightarrow> g_variants g
                        | Some d \<Rightarrow> mergeVariants (or_empty (p_variants d)) (g_variants g))"
    and soi: "uo_setOnInsert u = None \<or> (\<exists>i. uo_setOnInsert u = Some [Set_docId (Some i)])"
    by (auto simp: op_spec_def split: option.splits)
  from g have "(pid, g) \<in> set gd" by (rule map_of_SomeD)
  with assms(1) have "\<forall>v \<in> set (g_variants g). built_from E chunk v"
    by (auto simp: groups_built_def)
  then have gv: "set (g_variants g) \<subseteq> ?V"
    by (auto dest: built_from_good)
  have "set (case existing_get (find_in pids ds) pid of
                          None \<Rightarrow> g_variants g
                        | Some d \<Rightarrow> mergeVariants (or_empty (p_variants d)) (g_variants g)) \<subseteq> ?V"
  proof (cases "existing_get (find_in pids ds) pid")
    case None
    with gv show ?thesis by simp
  next
    case (Some d)
    then have "d \<in> set ds" using find_in_subset by (blast dest: existing_get_mem)
    then have "set (or_empty (p_variants d)) \<subseteq> ?V" by blast
    with gv mergeVariants_subset[of "or_empty (p_variants d)" "g_variants g"] Some
    show ?thesis by auto
  qed
  with v u soi show ?thesis
    by (auto simp: op_variants_within_def or_empty_def dest!: set_part_variants)
qed

lemma stored_variant_good [simp]:
  "v_currency (stored_variant omit v) = v_currency v" "v_active (stored_variant omit v) = v_active v"
  by (simp_all add: stored_variant_def)

lemma processChunk_variants_from:
  assumes "processChunk E chunk s = (r, s')"
  shows "variants_from E s s'"
proof -
  let ?old = "\<Union>d \<in> set (products s). set (or_empty (p_variants d))"
  let ?V = "{v. v_currency v = ''EUR'' \<and> v_active v} \<union> ?old"
  let ?W = "?V \<union> stored_variant (omitUndefined E) ` ?old"
  have enc: "\<forall>v \<in> ?V. stored_variant (omitUndefined E) v \<in> ?W" by auto
  have "\<forall>d \<in> set (products s'). set (or_empty (p_variants d)) \<subseteq> ?W"
    using processChunk_products[OF assms]
  proof (elim disjE exE conjE)
    assume "products s' = products s"
    then show ?thesis by auto
  next
    fix gd ops
    assume gb: "groups_built E chunk gd"
      and ops: "list_all2 (op_spec (find_in (object_keys (map fst gd)) (products s)) gd)
                  (object_keys (map fst gd)) ops"
      and p: "products s' = bulkWrite_apply (omitUndefined E) ops (products s)"
    have w: "\<forall>u \<in> set ops. op_variants_within ?V u"
    proof
      fix u assume "u \<in> set ops"
      with ops obtain pid where
        "op_spec (find_in (object_keys (map fst gd)) (products s)) gd pid u"
        by (blast dest: list_all2_op_spec_D)
      with gb show "op_variants_within ?V u" by (rule op_spec_variants_within)
    qed
    have "\<forall>d \<in> set (products s). set (or_empty (p_variants d)) \<subseteq> ?W" by blast
    from bulkWrite_apply_variants[OF this w enc] show ?thesis unfolding p .
  qed
  then have sub: "v \<in> ?W" if "d' \<in> set (products s')" "v \<in> set (or_empty (p_variants d'))" for d' v
    using that by blast
  show ?thesis unfolding variants_from_def
  proof (intro ballI)
    fix d' v assume "d' \<in> set (products s')" "v \<in> set (or_empty (p_variants d'))"
    from sub[OF this] show "(v_currency v = ''EUR'' \<and> v_active v)
        \<or> (\<exists>d \<in> set (products s). \<exists>v0 \<in> set (or_empty (p_variants d)).
              v = v0 \<or> v = stored_variant (omitUndefined E) v0)"
      by blast
  qed
qed

section \<open>Reference entities and the stream of chunks\<close>



lemma checkVendor_calls:
  assumes "checkVendor E k s = (r, s')"
  shows "vendorCache s' = vendorCache s \<and> manufacturerCache s' = manufacturerCache s
     \<and> (\<exists>rest. calls s' = calls s @ VendorFindOne k # rest)"
  using assms
  by (auto simp: checkVendor_def bindA_def db_read_def db_write_def nanoid_def returnA_def Let_def
        split: if_splits option.splits sum.splits prod.splits)

lemma ensureManufacturer_calls:
  assumes "ensureManufacturer E k n s = (r, s')"
  shows "vendorCache s' = vendorCache s \<and> manufacturerCache s' = manufacturerCache s
     \<and> (\<exists>rest. calls s' = calls s @ ManufacturerFindOne k # rest)"
  using assms
  by (auto simp: ensureManufacturer_def bindA_def db_read_def db_write_def returnA_def Let_def
        split: if_splits option.splits sum.splits prod.splits)

lemma find_append_new:
  "find P (xs @ [x]) = (case find P xs of Some y \<Rightarrow> Some y | None \<Rightarrow> if P x then Some x else None)"
  by (induction xs) auto

text \<open>
  A later resolution of a key, in a state whose collection extends the one an earlier
  resolution of the key left.
\<close>

lemma find_append_first: "find P xs = Some x \<Longrightarrow> find P (xs @ zs) = Some x"
  by (induction xs) (auto split: if_splits)

lemma find_prefix: "find P xs = Some x \<Longrightarrow> prefix xs ys \<Longrightarrow> find P ys = Some x"
  by (auto simp: prefix_def find_append_first)

lemma checkVendor_found:
  assumes "checkVendor E k s = (Inr i, s1)"
  shows "\<exists>v. find (\<lambda>v. vn_name v = k) (vendors s1) = Some v \<and> vn_vendorId v = i"
  using assms
  by (auto simp: checkVendor_def bindA_def db_read_def db_write_def nanoid_def returnA_def Let_def
        find_append_new split: if_splits option.splits sum.splits prod.splits)

lemma checkVendor_later:
  assumes 1: "checkVendor E k s = (Inr i, s1)" and p: "prefix (vendors s1) (vendors s2)"
    and 2: "checkVendor E k s2 = (Inr i', s3)"
  shows "i' = i \<and> vendors s3 = vendors s2 \<and> calls s3 = calls s2 @ [VendorFindOne k]"
proof -
  from checkVendor_found[OF 1] obtain v where
    v: "find (\<lambda>v. vn_name v = k) (vendors s1) = Some v" "vn_vendorId v = i" by blast
  from find_prefix[OF v(1) p] v(2)
  have "find (\<lambda>v. vn_name v = k) (vendors s2) = Some v \<and> vn_vendorId v = i" by simp
  with 2 show ?thesis
    by (auto simp: checkVendor_def bindA_def db_read_def db_write_def nanoid_def returnA_def Let_def
          split: if_splits option.splits sum.splits prod.splits)
qed

lemma ensureManufacturer_found:
  assumes "ensureManufacturer E k n s = (Inr i, s1)"
  shows "\<exists>m. find (\<lambda>m. m_manufacturerId m = k) (manufacturers s1) = Some m \<and> m_manufacturerId m = i"
  using assms
  by (auto simp: ensureManufacturer_def bindA_def db_read_def db_write_def returnA_def Let_def
        find_append_new split: if_splits option.splits sum.splits prod.splits dest: find_mem)

lemma ensureManufacturer_later:
  assumes 1: "ensureManufacturer E k n s = (Inr i, s1)"
    and p: "prefix (manufacturers s1) (manufacturers s2)"
    and 2: "ensureManufacturer E k n' s2 = (Inr i', s3)"
  shows "i' = i \<and> manufacturers s3 = manufacturers s2
     \<and> calls s3 = calls s2 @ [ManufacturerFindOne k]"
proof -
  from ensureManufacturer_found[OF 1] obtain m where
    m: "find (\<lambda>m. m_manufacturerId m = k) (manufacturers s1) = Some m" "m_manufacturerId m = i"
    by blast
  from find_prefix[OF m(1) p] m(2)
  have "find (\<lambda>m. m_manufacturerId m = k) (manufacturers s2) = Some m \<and> m_manufacturerId m = i"
    by simp
  with 2 show ?thesis
    by (auto simp: ensureManufacturer_def bindA_def db_read_def db_write_def returnA_def Let_def
          split: if_splits option.splits sum.splits prod.splits)
qed

text \<open>
  A call of \<open>processChunk\<close> leaves the caches as they were and the two collections of
  reference entities extended at their end.
\<close>

lemma processChunk_refs:
  assumes "processChunk E c s = (r, s')"
  shows "vendorCache s' = vendorCache s \<and> manufacturerCache s' = manufacturerCache s
     \<and> prefix (vendors s) (vendors s') \<and> prefix (manufacturers s) (manufacturers s')"
proof -
  have "inv (\<lambda>t. vendorCache t = vendorCache s \<and> manufacturerCache t = manufacturerCache s
               \<and> prefix (vendors s) (vendors t) \<and> prefix (manufacturers s) (manufacturers t))
          (processChunk E c)"
    by (rule inv_processChunk)
       (simp_all add: ignores_ids_def ignores_log_def accepts_vendors_def accepts_manufacturers_def)
  from invD[OF this _ assms] show ?thesis by simp
qed

lemma attempt_contained: "attempt (processChunk E) label c t = contained E label t c"
  by (simp add: attempt_def contained_def catchA_def logA_def split: prod.splits sum.splits)

lemma length_last_rows: "0 < n \<Longrightarrow> length (last_rows n xs) = length xs mod n"
  by (simp add: last_rows_def minus_mult_div_eq_mod)

lemma full_chunks_snoc_short:
  assumes "0 < n" "Suc (length xs mod n) < n"
  shows "full_chunks n (xs @ [x]) = full_chunks n xs"
    and "last_rows n (xs @ [x]) = last_rows n xs @ [x]"
proof -
  have d: "Suc (length xs) div n = length xs div n"
    using assms by (simp add: div_Suc mod_Suc) 
  have le: "n * (length xs div n) \<le> length xs" by simp
  show "last_rows n (xs @ [x]) = last_rows n xs @ [x]"
    using le by (simp add: last_rows_def d)
  have "take n (drop (i * n) (xs @ [x])) = take n (drop (i * n) xs)" if "i < length xs div n" for i
  proof -
    from that have "Suc i * n \<le> (length xs div n) * n" by (intro mult_le_mono1) simp
    also have "\<dots> \<le> length xs" by simp
    finally have "i * n + n \<le> length xs" by simp
    then show ?thesis by simp
  qed
  then show "full_chunks n (xs @ [x]) = full_chunks n xs"
    by (simp add: full_chunks_def d)
qed

lemma full_chunks_snoc_full:
  assumes "0 < n" "Suc (length xs mod n) = n"
  shows "full_chunks n (xs @ [x]) = full_chunks n xs @ [last_rows n xs @ [x]]"
    and "last_rows n (xs @ [x]) = []"
proof -
  define q where "q = length xs div n"
  have "q * n + length xs mod n = length xs" unfolding q_def by (rule div_mult_mod_eq)
  with assms(2) have len: "Suc (length xs) = q * n + n" by linarith
  then have lenx: "length (xs @ [x]) = Suc q * n" by simp
  have d: "length (xs @ [x]) div n = Suc q"
    unfolding lenx using assms(1) by simp
  have le: "q * n \<le> length xs" using len assms(1) by linarith
  have rest: "length (drop (q * n) xs) = n - 1" using len by simp
  show "last_rows n (xs @ [x]) = []"
    unfolding last_rows_def d using lenx by (simp add: mult.commute)
  have old: "take n (drop (i * n) (xs @ [x])) = take n (drop (i * n) xs)" if "i < q" for i
  proof -
    from that have "Suc i * n \<le> q * n" by (intro mult_le_mono1) simp
    with le have "i * n + n \<le> length xs" by simp
    then show ?thesis by simp
  qed
  have new: "take n (drop (q * n) (xs @ [x])) = last_rows n xs @ [x]"
    using le rest assms(1) by (simp add: last_rows_def q_def[symmetric] mult.commute)
  have "full_chunks n (xs @ [x]) = map (\<lambda>i. take n (drop (i * n) (xs @ [x]))) ([0 ..< q] @ [q])"
    unfolding full_chunks_def d by simp
  also have "\<dots> = map (\<lambda>i. take n (drop (i * n) xs)) [0 ..< q] @ [last_rows n xs @ [x]]"
    using old new by simp
  finally show "full_chunks n (xs @ [x]) = full_chunks n xs @ [last_rows n xs @ [x]]"
    by (simp add: full_chunks_def q_def)
qed

lemma foldl_on_data:
  assumes "0 < n"
  shows "foldl (on_data n pc) ([], s) rows
     = (last_rows n rows, foldl (\<lambda>t c. attempt pc ''Error processing chunk: '' c t) s (full_chunks n rows))"
proof (induction rows rule: rev_induct)
  case Nil
  show ?case by (simp add: last_rows_def full_chunks_def)
next
  case (snoc x xs)
  let ?t = "foldl (\<lambda>t c. attempt pc ''Error processing chunk: '' c t) s (full_chunks n xs)"
  have step: "foldl (on_data n pc) ([], s) (xs @ [x]) = on_data n pc (last_rows n xs, ?t) x"
    by (simp add: snoc)
  have m: "length xs mod n < n" using assms by simp
  show ?case
  proof (cases "Suc (length xs mod n) < n")
    case True
    with assms show ?thesis
      unfolding step
      by (simp add: on_data_def Let_def full_chunks_snoc_short length_last_rows)
  next
    case False
    with m have e: "Suc (length xs mod n) = n" by simp
    with assms show ?thesis
      unfolding step
      by (simp add: on_data_def Let_def full_chunks_snoc_full length_last_rows)
  qed
qed

lemma foldl_on_data_contained:
  assumes "0 < n"
  shows "foldl (on_data n (processChunk E)) ([], s) rows
     = (last_rows n rows, foldl (contained E ''Error processing chunk: '') s (full_chunks n rows))"
proof -
  have "foldl (\<lambda>t c. attempt (processChunk E) ''Error processing chunk: '' c t) s cs
          = foldl (contained E ''Error processing chunk: '') s cs" for cs
    by (induction cs arbitrary: s) (simp_all add: attempt_contained)
  then show ?thesis by (simp only: foldl_on_data[OF assms])
qed

text \<open>The last row of a file fills the chunk when the rows make up whole chunks.\<close>

lemma at_last_row_eq:
  assumes "0 < n"
  shows "at_last_row n (processChunk E) rows s0
     = (last_rows n (butlast rows) @ [last rows],
        foldl (contained E ''Error processing chunk: '') s0 (full_chunks n (butlast rows)))"
  by (simp add: at_last_row_def Let_def foldl_on_data_contained[OF assms])

lemma last_row_fills_iff:
  assumes "0 < n"
  shows "last_row_fills n (processChunk E) rows s0 = (rows \<noteq> [] \<and> length rows mod n = 0)"
proof (cases "rows = []")
  case True
  then show ?thesis by (simp add: last_row_fills_def)
next
  case False
  define k where "k = length (butlast rows)"
  from False have len: "length rows = Suc k" by (simp add: k_def)
  have lt: "k mod n < n" using assms by simp
  have "(n \<le> Suc (k mod n)) = (Suc (k mod n) = n)" using lt by linarith
  also have "\<dots> = (Suc k mod n = 0)" by (simp add: mod_Suc)
  finally have "(n \<le> Suc (k mod n)) = (length rows mod n = 0)" by (simp only: len)
  with False show ?thesis
    by (simp add: last_row_fills_def at_last_row_eq[OF assms] length_last_rows[OF assms] k_def)
qed

text \<open>
  How a run ends, and the state it leaves: every chunk of \<open>chunkSize\<close> rows is
  attempted in file order, each from the state the one before left, then the rows left
  over when the parser ends. When the rows of the file make up whole chunks, the run
  comes to the second call of \<open>processChunk\<close> on the last chunk with all chunks but the
  last attempted.
\<close>

lemma driver_outcome:
  "fst (importProducts E rows ending s)
     = (case ending of
          End \<Rightarrow> if rows \<noteq> [] \<and> length rows mod chunkSize = 0 then Overlapped else Resolved
        | ParserError e \<Rightarrow> Rejected e
        | FileError e \<Rightarrow> Uncaught e)"
  "\<not> (rows \<noteq> [] \<and> length rows mod chunkSize = 0) \<Longrightarrow>
   snd (importProducts E rows End s)
       = (let t0 = s\<lparr>logged := logged s @ [LogInfo ''Starting product import'']\<rparr>;
              t1 = foldl (contained E ''Error processing chunk: '') t0 (full_chunks chunkSize rows);
              t2 = (if last_rows chunkSize rows = [] then t1
                    else contained E ''Error processing final chunk: '' t1 (last_rows chunkSize rows))
          in t2\<lparr>logged := logged t2 @ [LogInfo ''Product import completed'']\<rparr>)"
  "rows \<noteq> [] \<and> length rows mod chunkSize = 0 \<Longrightarrow>
   snd (importProducts E rows End s)
       = foldl (contained E ''Error processing chunk: '')
           (s\<lparr>logged := logged s @ [LogInfo ''Starting product import'']\<rparr>)
           (full_chunks chunkSize (butlast rows))"
  "snd (importProducts E rows (ParserError e) s)
       = (let t0 = s\<lparr>logged := logged s @ [LogInfo ''Starting product import'']\<rparr>;
              t1 = foldl (contained E ''Error processing chunk: '') t0 (full_chunks chunkSize rows)
          in t1\<lparr>logged := logged t1 @ [LogError (''Error reading CSV file: '' @ message e)]\<rparr>)"
  "snd (importProducts E rows (FileError e) s)
       = foldl (contained E ''Error processing chunk: '')
           (s\<lparr>logged := logged s @ [LogInfo ''Starting product import'']\<rparr>)
           (full_chunks chunkSize rows)"
proof -
  have n: "0 < chunkSize" by (simp add: chunkSize_def)
  note fold = foldl_on_data_contained[OF n]
  note fills = last_row_fills_iff[OF n]
  show "fst (importProducts E rows ending s)
     = (case ending of
          End \<Rightarrow> if rows \<noteq> [] \<and> length rows mod chunkSize = 0 then Overlapped else Resolved
        | ParserError e \<Rightarrow> Rejected e
        | FileError e \<Rightarrow> Uncaught e)"
    by (cases ending)
       (simp_all add: importProducts_def consume_def on_end_def on_error_def Let_def fills)
  show "snd (importProducts E rows End s)
       = (let t0 = s\<lparr>logged := logged s @ [LogInfo ''Starting product import'']\<rparr>;
              t1 = foldl (contained E ''Error processing chunk: '') t0 (full_chunks chunkSize rows);
              t2 = (if last_rows chunkSize rows = [] then t1
                    else contained E ''Error processing final chunk: '' t1 (last_rows chunkSize rows))
          in t2\<lparr>logged := logged t2 @ [LogInfo ''Product import completed'']\<rparr>)"
    if "\<not> (rows \<noteq> [] \<and> length rows mod chunkSize = 0)"
  proof -
    from that have "\<not> last_row_fills chunkSize (processChunk E) rows
                      (snd (logA (LogInfo ''Starting product import'') s))"
      by (simp add: fills)
    then show ?thesis
      by (simp add: importProducts_def consume_def on_end_def Let_def logA_def fold attempt_contained)
  qed
  show "snd (importProducts E rows End s)
       = foldl (contained E ''Error processing chunk: '')
           (s\<lparr>logged := logged s @ [LogInfo ''Starting product import'']\<rparr>)
           (full_chunks chunkSize (butlast rows))"
    if "rows \<noteq> [] \<and> length rows mod chunkSize = 0"
    using that
    by (simp add: importProducts_def consume_def Let_def logA_def fills at_last_row_eq[OF n])
  show "snd (importProducts E rows (ParserError e) s)
       = (let t0 = s\<lparr>logged := logged s @ [LogInfo ''Starting product import'']\<rparr>;
              t1 = foldl (contained E ''Error processing chunk: '') t0 (full_chunks chunkSize rows)
          in t1\<lparr>logged := logged t1 @ [LogError (''Error reading CSV file: '' @ message e)]\<rparr>)"
    by (simp add: importProducts_def consume_def on_error_def Let_def logA_def fold)
  show "snd (importProducts E rows (FileError e) s)
       = foldl (contained E ''Error processing chunk: '')
           (s\<lparr>logged := logged s @ [LogInfo ''Starting product import'']\<rparr>)
           (full_chunks chunkSize rows)"
    by (simp add: importProducts_def consume_def Let_def logA_def fold)
qed

section \<open>Reading a quantity\<close>

lemma white_space_char: "isStrWhiteSpaceChar c \<Longrightarrow> \<not> isDecimalDigit c \<and> c \<noteq> CHR ''+'' \<and> c \<noteq> CHR ''-''"
  by (auto simp: isStrWhiteSpaceChar_def isDecimalDigit_def)

lemma digit_char: "isDecimalDigit c \<Longrightarrow> c \<noteq> CHR ''+'' \<and> c \<noteq> CHR ''-''"
  by (auto simp: isDecimalDigit_def)

lemma digit_zero: "(int (of_char c) - 48 = 0) = (c = CHR ''0'')"
proof
  assume "int (of_char c) - 48 = 0"
  then have "(of_char c :: nat) = 48" by simp
  moreover have "(of_char CHR ''0'' :: nat) = 48" by simp
  ultimately have "(of_char c :: nat) = of_char CHR ''0''" by simp
  then show "c = CHR ''0''" by (simp only: of_char_eq_iff)
qed simp

lemma digit_range: "isDecimalDigit c \<Longrightarrow> 0 \<le> int (of_char c) - 48"
  by (simp add: isDecimalDigit_def)

lemma digits_fold_nonneg:
  "0 \<le> a \<Longrightarrow> \<forall>c \<in> set ds. isDecimalDigit c \<Longrightarrow>
   0 \<le> foldl (\<lambda>a c. 10 * a + (int (of_char c) - 48)) a ds"
proof (induction ds arbitrary: a)
  case Nil then show ?case by simp
next
  case (Cons d ds)
  then have "0 \<le> 10 * a + (int (of_char d) - 48)" using digit_range[of d] by simp
  with Cons show ?case by simp
qed

lemma digits_fold_pos:
  "0 \<le> a \<Longrightarrow> \<forall>c \<in> set ds. isDecimalDigit c \<Longrightarrow>
   (0 < foldl (\<lambda>a c. 10 * a + (int (of_char c) - 48)) a ds) = (0 < a \<or> (\<exists>c \<in> set ds. c \<noteq> CHR ''0''))"
proof (induction ds arbitrary: a)
  case Nil then show ?case by simp
next
  case (Cons d ds)
  have r: "0 \<le> int (of_char d) - 48" using Cons.prems digit_range[of d] by simp
  then have n: "0 \<le> 10 * a + (int (of_char d) - 48)" using Cons.prems by simp
  have "(0 < 10 * a + (int (of_char d) - 48)) = (0 < a \<or> d \<noteq> CHR ''0'')"
    using r Cons.prems(1) digit_zero[of d] by auto
  with Cons.IH[OF n] Cons.prems show ?case by auto
qed

lemma digits_value_pos:
  "\<forall>c \<in> set ds. isDecimalDigit c \<Longrightarrow> (0 < digits_value ds) = (\<exists>c \<in> set ds. c \<noteq> CHR ''0'')"
  unfolding digits_value_def using digits_fold_pos[of 0 ds] by simp

lemma digits_value_nonneg: "\<forall>c \<in> set ds. isDecimalDigit c \<Longrightarrow> 0 \<le> digits_value ds"
  unfolding digits_value_def using digits_fold_nonneg[of 0 ds] by simp

lemma parseBoolean_prefix: "parseBoolean v = positive_digit_prefix (ToString v)"
proof
  let ?s = "ToString v"
  let ?S = "dropWhile isStrWhiteSpaceChar ?s"
  let ?S' = "case ?S of c # r \<Rightarrow> if c = CHR ''-'' \<or> c = CHR ''+'' then r else ?S | [] \<Rightarrow> ?S"
  let ?sg = "case ?S of c # _ \<Rightarrow> if c = CHR ''-'' then -1 else 1 | [] \<Rightarrow> (1::int)"
  let ?Z = "takeWhile isDecimalDigit ?S'"
  assume "parseBoolean v"
  then have Z: "?Z \<noteq> []" and pos: "0 < ?sg * digits_value ?Z"
    by (auto simp: parseBoolean_def parseInt10_def Let_def split: if_splits)
  have dZ: "\<forall>c \<in> set ?Z. isDecimalDigit c" by (auto dest: set_takeWhileD)
  from Z obtain c r where S: "?S = c # r" by (cases ?S) auto
  have nn: "0 \<le> digits_value ?Z" by (rule digits_value_nonneg[OF dZ])
  have c: "c \<noteq> CHR ''-''"
  proof
    assume "c = CHR ''-''"
    with S pos have "0 < - digits_value ?Z" by simp
    with nn show False by simp
  qed
  with S pos have "0 < digits_value ?Z" by simp
  then have nz: "\<exists>c \<in> set ?Z. c \<noteq> CHR ''0''" by (simp only: digits_value_pos[OF dZ])
  define sign where "sign = (if c = CHR ''+'' then ''+'' else [])"
  have split: "?S = sign @ ?S'" using S c by (simp add: sign_def)
  have "?s = takeWhile isStrWhiteSpaceChar ?s @ ?S" by simp
  also have "?S = sign @ ?Z @ dropWhile isDecimalDigit ?S'" by (subst split) simp
  finally have "?s = takeWhile isStrWhiteSpaceChar ?s @ sign @ ?Z @ dropWhile isDecimalDigit ?S'" .
  moreover have "\<forall>c \<in> set (takeWhile isStrWhiteSpaceChar ?s). isStrWhiteSpaceChar c"
    by (auto dest: set_takeWhileD)
  moreover have "sign = [] \<or> sign = ''+''" by (simp add: sign_def)
  ultimately show "positive_digit_prefix ?s"
    unfolding positive_digit_prefix_def using Z dZ nz by blast
next
  assume "positive_digit_prefix (ToString v)"
  then obtain ws sign ds rest where s: "ToString v = ws @ sign @ ds @ rest"
    and ws: "\<forall>c \<in> set ws. isStrWhiteSpaceChar c" and sg: "sign = [] \<or> sign = ''+''"
    and ds: "ds \<noteq> []" "\<forall>c \<in> set ds. isDecimalDigit c" "\<exists>c \<in> set ds. c \<noteq> CHR ''0''"
    unfolding positive_digit_prefix_def by blast
  from ds(1) obtain d ds' where d: "ds = d # ds'" by (cases ds) auto
  with ds(2) have dd: "isDecimalDigit d" by simp
  then have dw: "\<not> isStrWhiteSpaceChar d" using white_space_char[of d] by blast
  have pw: "\<not> isStrWhiteSpaceChar CHR ''+''" using white_space_char[of "CHR ''+''"] by blast
  have S: "dropWhile isStrWhiteSpaceChar (ToString v) = sign @ ds @ rest"
  proof -
    have "dropWhile isStrWhiteSpaceChar (ws @ sign @ ds @ rest)
            = dropWhile isStrWhiteSpaceChar (sign @ ds @ rest)"
      using ws by (intro dropWhile_append2) simp
    also have "\<dots> = sign @ ds @ rest" using sg d dw pw by auto
    finally show ?thesis by (simp only: s)
  qed
  let ?Z = "ds @ takeWhile isDecimalDigit rest"
  have Z: "takeWhile isDecimalDigit (ds @ rest) = ?Z"
    using ds(2) by (intro takeWhile_append2) simp
  have dZ: "\<forall>c \<in> set ?Z. isDecimalDigit c" using ds(2) by (auto dest: set_takeWhileD)
  from ds(3) have "\<exists>c \<in> set ?Z. c \<noteq> CHR ''0''" by auto
  then have pos: "0 < digits_value ?Z" by (simp only: digits_value_pos[OF dZ])
  have "parseInt10 v = Some (digits_value ?Z)"
    using sg
  proof
    assume "sign = []"
    with S d digit_char[OF dd] Z show ?thesis
      by (simp add: parseInt10_def Let_def)
  next
    assume "sign = ''+''"
    with S d Z show ?thesis by (simp add: parseInt10_def Let_def)
  qed
  with pos show "parseBoolean v" by (simp add: parseBoolean_def)
qed
section \<open>The description collaborator (C9)\<close>

text \<open>
  Claim C9. For every name and description, \<open>enhanceDescription\<close> never raises an
  error to its caller and on any internal failure returns the original description
  unchanged; in the present pass-through form it returns the original description in
  all cases. The method returns normally (\<open>Inr\<close>) with the description it was given,
  from every state, and leaves the state, the log included, as it was.
\<close>

theorem enhanceDescription_passthrough:
  "enhanceDescription name description s = (Inr description, s)"
  by (simp add: enhanceDescription_def catchA_def returnA_def)

section \<open>Availability of a built variant (C7)\<close>

text \<open>
  Claim C7 says that the built variant's \<open>available\<close> field is true if and only if the
  row's \<open>QuantityOnHand\<close> value parses as an integer strictly greater than zero, and that
  any value that does not parse as an integer yields \<open>available = false\<close>. The code reads
  the value with \<open>parseInt(value, 10)\<close>, which takes the digits a string begins with and
  ignores the rest: the rows with \<open>QuantityOnHand\<close> \<open>7.5\<close>, \<open>12 boxes\<close> and \<open>1e3\<close>, none
  of which is an integer, give variants that are available.
\<close>

theorem available_of_non_integer_counterexample:
  "map_sum id v_available
      (fst (constructVariant ex_env (ex_row(''QuantityOnHand'' \<mapsto> ''7.5'')) empty_state)) = Inr True
   \<and> map_sum id v_available
      (fst (constructVariant ex_env (ex_row(''QuantityOnHand'' \<mapsto> ''12 boxes'')) empty_state)) = Inr True
   \<and> map_sum id v_available
      (fst (constructVariant ex_env (ex_row(''QuantityOnHand'' \<mapsto> ''1e3'')) empty_state)) = Inr True"
  by code_simp

text \<open>
  Claim C7 as amended: for every input row, \<open>constructVariant\<close> returns a variant, and its
  \<open>available\<close> field is true if and only if the row's \<open>QuantityOnHand\<close> value (the text
  \<open>undefined\<close> when the row has no such cell), after leading white space and an
  optional plus sign, goes on with decimal digits that are not all zero. What follows
  the digits is ignored; a value that does not begin in this way (no digit, a minus
  sign, only zeros) yields \<open>available = false\<close>.
\<close>

theorem constructVariant_available:
  "\<exists>v s'. constructVariant E r s = (Inr v, s')
     \<and> v_available v = positive_digit_prefix (ToString (r ''QuantityOnHand''))"
  by (simp add: constructVariant_eq variant_of_row_def parseBoolean_prefix)

theorem constructVariant_available_witness:
  "map_sum id v_available
      (fst (constructVariant ex_env (ex_row(''QuantityOnHand'' \<mapsto> '' +12 boxes'')) empty_state))
     = Inr True"
proof -
  let ?r = "ex_row(''QuantityOnHand'' \<mapsto> '' +12 boxes'')"
  from constructVariant_available[of ex_env ?r empty_state] obtain v s' where
    run: "constructVariant ex_env ?r empty_state = (Inr v, s')"
    and av: "v_available v = positive_digit_prefix (ToString (?r ''QuantityOnHand''))" by blast
  have "'' +12 boxes'' = '' '' @ ''+'' @ ''12'' @ '' boxes''" by simp
  moreover have "\<forall>c \<in> set '' ''. isStrWhiteSpaceChar c" by (simp add: isStrWhiteSpaceChar_def)
  moreover have "\<forall>c \<in> set ''12''. isDecimalDigit c" by (simp add: isDecimalDigit_def)
  moreover have "\<exists>c \<in> set ''12''. c \<noteq> CHR ''0''" by simp
  ultimately have "positive_digit_prefix '' +12 boxes''"
    unfolding positive_digit_prefix_def
    by (intro exI[of _ "'' ''"] exI[of _ "''+''"] exI[of _ "''12''"] exI[of _ "'' boxes''"]) simp
  with av have "v_available v" by (simp add: ToString_def)
  with run show ?thesis by simp
qed


section \<open>The merged variant list (C1)\<close>

text \<open>
  Claim C1 says that the merged list is the union by sku of the prior and the incoming
  variants, an incoming variant replacing the prior one of its sku exactly when price,
  availability or description differ, the prior one being kept untouched otherwise.

  The code compares an incoming variant with the entry the map holds for its sku at
  that moment, which is the prior variant only for the first incoming variant of that
  sku. When the product \<open>P1\<close> is stored with one variant (price 5.50) and a chunk brings
  the same sku twice, first at price 12 and then at price 5.50 again, the first row
  replaces the stored variant and the second replaces the replacement: the list ends
  with a variant that agrees with the prior one in price, availability and description
  and yet is not the prior one (its generated id is new).
\<close>

theorem merge_replaces_unchanged_counterexample:
  "map variant_digest (stored_variants ex_state_1 ''P1'')
     = [(''I1C1Box10'', ''x'', Num (11 / 2), True, Str ''Sterile 4x4'')]
   \<and> map variant_digest
         (stored_variants (snd (processChunk ex_env [ex_row_12, ex_row] ex_state_1)) ''P1'')
     = [(''I1C1Box10'', ''xxxxxxxxxxxxxxx'', Num (11 / 2), True, Str ''Sterile 4x4'')]"
  by code_simp

text \<open>
  Claim C1 as amended: when the incoming variants of the product have pairwise distinct
  skus (and prices that are numbers, which \<open>parseNumber\<close> ensures), the merged list holds
  exactly one variant for each sku among the prior and the incoming variants: for a sku
  that only the stored list has, the stored variant, unchanged; for a sku that only the
  chunk has, the incoming variant; for a sku that both have, the incoming variant if
  price, availability or description differ from the stored one, and otherwise the
  stored one, unchanged in all its fields. The stored variant of a sku is the last one
  with that sku in the stored list. Descriptions differ as \<open>!==\<close> has it: a stored
  description \<open>null\<close> and an incoming description \<open>undefined\<close> are different.
\<close>

theorem merge_by_sku:
  assumes "distinct (map v_sku inc)" and "\<forall>i \<in> set inc. v_price i \<noteq> NaN"
  shows "distinct (map v_sku (mergeVariants ex inc))
     \<and> v_sku ` set (mergeVariants ex inc) = v_sku ` set ex \<union> v_sku ` set inc
     \<and> (\<forall>v \<in> set (mergeVariants ex inc).
          case (prior_variant ex (v_sku v), find (\<lambda>i. v_sku i = v_sku v) inc) of
            (Some e, Some i) \<Rightarrow>
              v = (if v_price e \<noteq> v_price i \<or> v_available e \<noteq> v_available i
                      \<or> v_description e \<noteq> v_description i then i else e)
          | (Some e, None) \<Rightarrow> v = e
          | (None, Some i) \<Rightarrow> v = i
          | (None, None) \<Rightarrow> False)"
proof (intro conjI ballI)
  show "distinct (map v_sku (mergeVariants ex inc))" by (rule mergeVariants_distinct)
next
  have "set (map v_sku (mergeVariants ex inc)) = set (map v_sku ex @ map v_sku inc)"
    by (simp only: mergeVariants_skus set_first_occurrences)
  then show "v_sku ` set (mergeVariants ex inc) = v_sku ` set ex \<union> v_sku ` set inc" by simp
next
  fix v assume v: "v \<in> set (mergeVariants ex inc)"
  note L = mergeVariants_lookup[OF assms(1) v]
  show "case (prior_variant ex (v_sku v), find (\<lambda>i. v_sku i = v_sku v) inc) of
            (Some e, Some i) \<Rightarrow>
              v = (if v_price e \<noteq> v_price i \<or> v_available e \<noteq> v_available i
                      \<or> v_description e \<noteq> v_description i then i else e)
          | (Some e, None) \<Rightarrow> v = e
          | (None, Some i) \<Rightarrow> v = i
          | (None, None) \<Rightarrow> False"
  proof (cases "find (\<lambda>i. v_sku i = v_sku v) inc")
    case None
    with L show ?thesis by (auto split: option.splits)
  next
    case (Some i)
    then have "i \<in> set inc" by (auto simp: find_Some_iff)
    with assms(2) have "v_price i \<noteq> NaN" by blast
    with L Some show ?thesis
      by (auto simp: isVariantUpdated_iff split: option.splits)
  qed
qed

theorem merge_by_sku_witness:
  "distinct (map v_sku [variant_of_row ex_env ex_row_12 3, variant_of_row ex_env ex_row_B 6])
   \<and> v_price (variant_of_row ex_env ex_row_12 3) \<noteq> NaN
   \<and> v_price (variant_of_row ex_env ex_row_B 6) \<noteq> NaN
   \<and> mergeVariants [variant_of_row ex_env ex_row 0]
        [variant_of_row ex_env ex_row_12 3, variant_of_row ex_env ex_row_B 6]
      = [variant_of_row ex_env ex_row_12 3, variant_of_row ex_env ex_row_B 6]
   \<and> v_sku ` set (mergeVariants [variant_of_row ex_env ex_row 0]
        [variant_of_row ex_env ex_row_12 3, variant_of_row ex_env ex_row_B 6])
      = {''I1C1Box10'', ''I2C1Box10''}"
proof -
  let ?ex = "[variant_of_row ex_env ex_row 0]"
  let ?inc = "[variant_of_row ex_env ex_row_12 3, variant_of_row ex_env ex_row_B 6]"
  have h1: "distinct (map v_sku ?inc)" by code_simp
  have h2: "\<forall>i \<in> set ?inc. v_price i \<noteq> NaN" by (simp add: constructVariant_price)
  have m: "mergeVariants ?ex ?inc = ?inc" by code_simp
  have "v_sku ` set ?ex \<union> v_sku ` set ?inc = {''I1C1Box10'', ''I2C1Box10''}" by code_simp
  with merge_by_sku[OF h1 h2, of ?ex] have "v_sku ` set (mergeVariants ?ex ?inc) = {''I1C1Box10'', ''I2C1Box10''}"
    by simp
  with h1 h2 m show ?thesis by simp
qed

text \<open>
  A row without \<open>ItemDescription\<close> that is imported again: when the store gave the
  description back as \<open>null\<close>, the incoming variant, whose description is \<open>undefined\<close>,
  replaces the stored one; when the store left the description out, the stored variant
  is kept.
\<close>

lemma merge_null_against_undefined:
  "map variant_digest
     (mergeVariants [stored_variant False (variant_of_row ex_env ex_row_plain 0)]
        [variant_of_row ex_env ex_row_plain 3])
     = [(''I1C1Box10'', ''xxxx'', Num (11 / 2), True, Undefined)]
   \<and> map variant_digest
     (mergeVariants [stored_variant True (variant_of_row ex_env ex_row_plain 0)]
        [variant_of_row ex_env ex_row_plain 3])
     = [(''I1C1Box10'', ''x'', Num (11 / 2), True, Undefined)]
   \<and> map variant_digest (stored_variants
        (snd (processChunk ex_env_null [ex_row_plain]
               (snd (processChunk ex_env_null [ex_row_plain] empty_state)))) ''P1'')
     = [(''I1C1Box10'', ''xxxxxxxxxxxx'', Num (11 / 2), True, Null)]"
  by code_simp

section \<open>The order of the merged variant list (C6)\<close>

text \<open>
  Claim C6 says that the variant list resulting from a merge into an existing product
  has all previously existing variants first, in their prior stored order (a replaced
  variant occupying the position of the variant it replaces), followed by newly
  introduced variants in the order in which their rows appear in the chunk. The merge
  first files the stored variants in a map under their skus, so of two stored variants
  with one sku only the second survives. The pipeline stores such lists itself: the
  product \<open>P1\<close> created from a chunk with the example row twice holds the sku
  \<open>I1C1Box10\<close> twice, and when a chunk with another item of the product is merged into
  it, the first of its two stored variants is gone.
\<close>

theorem merge_drops_stored_counterexample:
  "map variant_digest (stored_variants ex_state_dup ''P1'')
     = [(''I1C1Box10'', ''x'', Num (11 / 2), True, Str ''Sterile 4x4''),
        (''I1C1Box10'', ''xxxx'', Num (11 / 2), True, Str ''Sterile 4x4'')]
   \<and> map variant_digest (stored_variants (snd (processChunk ex_env [ex_row_B] ex_state_dup)) ''P1'')
     = [(''I1C1Box10'', ''xxxx'', Num (11 / 2), True, Str ''Sterile 4x4''),
        (''I2C1Box10'', ''xxxxxxxxxxxxxxx'', Num (11 / 2), True, Str ''Sterile 4x4'')]"
  by code_simp

text \<open>
  Claim C6 as amended: when the stored variants of the product have pairwise distinct
  skus, the merged list begins with one variant for each stored variant, in the stored
  order and under the same sku, each being the stored variant or the incoming variant
  that replaced it; then come the incoming variants with skus that the stored list does
  not have, in the order in which these skus first appear among the rows of the chunk.
\<close>

theorem merge_order:
  assumes "distinct (map v_sku ex)"
  shows "map v_sku (mergeVariants ex inc)
           = map v_sku ex @ first_occurrences (filter (\<lambda>k. k \<notin> v_sku ` set ex) (map v_sku inc))
     \<and> (\<forall>j < length ex. mergeVariants ex inc ! j = ex ! j \<or> mergeVariants ex inc ! j \<in> set inc)
     \<and> set (drop (length ex) (mergeVariants ex inc)) \<subseteq> set inc"
proof (intro conjI)
  let ?m = "mergeVariants ex inc"
  let ?new = "first_occurrences (filter (\<lambda>k. k \<notin> v_sku ` set ex) (map v_sku inc))"
  show skus: "map v_sku ?m = map v_sku ex @ ?new"
    using assms
    by (simp add: mergeVariants_skus first_occurrences_append first_occurrences_distinct_id)
  have len: "length ex \<le> length ?m"
    using arg_cong[OF skus, of length] by simp
  have "drop (length ex) (map v_sku ?m) = ?new" by (simp add: skus)
  then have tl_skus: "map v_sku (drop (length ex) ?m) = ?new" by (simp add: drop_map)
  show "\<forall>j < length ex. ?m ! j = ex ! j \<or> ?m ! j \<in> set inc"
  proof (intro allI impI)
    fix j assume j: "j < length ex"
    with len have jm: "j < length ?m" by simp
    then have mem: "?m ! j \<in> set ex \<union> set inc"
      using mergeVariants_subset[of ex inc] by (meson nth_mem subsetD)
    have "map v_sku ?m ! j = map v_sku ex ! j" using j by (simp add: skus nth_append)
    with j jm have sku: "v_sku (?m ! j) = v_sku (ex ! j)" by simp
    show "?m ! j = ex ! j \<or> ?m ! j \<in> set inc"
    proof (cases "?m ! j \<in> set ex")
      case True
      then obtain i where i: "i < length ex" "ex ! i = ?m ! j" by (auto simp: in_set_conv_nth)
      with sku have "v_sku (ex ! i) = v_sku (ex ! j)" by simp
      with i j have "map v_sku ex ! i = map v_sku ex ! j" by simp
      moreover from i j have "i < length (map v_sku ex)" "j < length (map v_sku ex)" by simp_all
      ultimately have "i = j" using assms by (simp only: nth_eq_iff_index_eq)
      with i show ?thesis by simp
    next
      case False
      with mem show ?thesis by simp
    qed
  qed
  show "set (drop (length ex) ?m) \<subseteq> set inc"
  proof
    fix v assume v: "v \<in> set (drop (length ex) ?m)"
    then have "v_sku v \<in> set (map v_sku (drop (length ex) ?m))" by simp
    then have "v_sku v \<in> set ?new" by (simp only: tl_skus)
    then have "v_sku v \<notin> v_sku ` set ex" by (simp add: set_first_occurrences)
    moreover from v have "v \<in> set ?m" by (rule in_set_dropD)
    then have "v \<in> set ex \<union> set inc" using mergeVariants_subset[of ex inc] by blast
    ultimately show "v \<in> set inc" by auto
  qed
qed

theorem merge_order_witness:
  "distinct (map v_sku [variant_of_row ex_env ex_row 0])
   \<and> mergeVariants [variant_of_row ex_env ex_row 0]
        [variant_of_row ex_env ex_row_B 3, variant_of_row ex_env ex_row_12 6]
      = [variant_of_row ex_env ex_row_12 6, variant_of_row ex_env ex_row_B 3]
   \<and> map v_sku (mergeVariants [variant_of_row ex_env ex_row 0]
        [variant_of_row ex_env ex_row_B 3, variant_of_row ex_env ex_row_12 6])
      = [''I1C1Box10'', ''I2C1Box10'']"
proof -
  let ?ex = "[variant_of_row ex_env ex_row 0]"
  let ?inc = "[variant_of_row ex_env ex_row_B 3, variant_of_row ex_env ex_row_12 6]"
  have h: "distinct (map v_sku ?ex)" by simp
  have m: "mergeVariants ?ex ?inc = [variant_of_row ex_env ex_row_12 6, variant_of_row ex_env ex_row_B 3]"
    by code_simp
  have e: "map v_sku ?ex = [''I1C1Box10'']" by code_simp
  have n: "first_occurrences (filter (\<lambda>k. k \<notin> v_sku ` set ?ex) (map v_sku ?inc)) = [''I2C1Box10'']"
    by code_simp
  from merge_order[OF h, of ?inc]
  have "map v_sku (mergeVariants ?ex ?inc)
          = map v_sku ?ex @ first_occurrences (filter (\<lambda>k. k \<notin> v_sku ` set ?ex) (map v_sku ?inc))"
    by blast
  then have "map v_sku (mergeVariants ?ex ?inc) = [''I1C1Box10'', ''I2C1Box10'']"
    by (simp only: e n append_Cons append_Nil)
  with h m show ?thesis by blast
qed

section \<open>The document id is written on insert only (C5)\<close>

text \<open>
  Claim C5. Every upsert instruction emitted for a productID places the generated
  document id only in the insert-only part of the write (\<open>$setOnInsert\<close>) and never in
  the update's \<open>$set\<close>, so on every update path, including the defensive path where a
  fresh id is regenerated because an existing record is missing its docId, the stored
  document id is never overwritten. For every call of \<open>processChunk\<close>, from every state
  and whatever its result: no update instruction of the batched write the call makes
  names \<open>docId\<close> in its \<open>$set\<close> part, an insert-only part names \<open>docId\<close> and nothing
  else, and the list of stored document ids after the call begins with the list before
  it, so every document that was stored keeps the id it had.
\<close>

theorem docId_only_on_insert:
  assumes "processChunk E chunk s = (r, s')"
  shows "(\<forall>bulkOps u. ProductBulkWrite bulkOps \<in> set (drop (length (calls s)) (calls s')) \<longrightarrow>
            u \<in> set bulkOps \<longrightarrow>
              (\<forall>a \<in> set (uo_set u). field_name a \<noteq> ''docId'')
              \<and> (\<forall>as. uo_setOnInsert u = Some as \<longrightarrow> map field_name as = [''docId'']))
       \<and> prefix (map p_docId (products s)) (map p_docId (products s'))"
  using processChunk_docIds_kept[OF assms] by (auto simp: docIds_kept_def)

theorem docId_only_on_insert_witness:
  "map p_docId (products ex_state_noid) = [None]
   \<and> map p_docId (products (snd (processChunk ex_env [ex_row_12] ex_state_noid))) = [None]
   \<and> map op_field_names
        (bulkWrites (drop (length (calls ex_state_noid))
                       (calls (snd (processChunk ex_env [ex_row_12] ex_state_noid)))))
      = [([''productID'', ''name'', ''description'', ''vendorId'', ''manufacturerId'',
           ''storefrontPriceVisibility'', ''variants'', ''options'', ''availability'',
           ''isFragile'', ''published'', ''isTaxable'', ''images'', ''categoryId'',
           ''dataPublic'', ''immutable'', ''deploymentId'', ''docType'', ''namespace'',
           ''companyId'', ''status'', ''info''], None)]
   \<and> map op_field_names (bulkWrites (calls ex_state_1))
      = [([''productID'', ''name'', ''description'', ''vendorId'', ''manufacturerId'',
           ''storefrontPriceVisibility'', ''variants'', ''options'', ''availability'',
           ''isFragile'', ''published'', ''isTaxable'', ''images'', ''categoryId'',
           ''dataPublic'', ''immutable'', ''deploymentId'', ''docType'', ''namespace'',
           ''companyId'', ''status'', ''info''], Some [''docId''])]
   \<and> prefix (map p_docId (products ex_state_noid))
        (map p_docId (products (snd (processChunk ex_env [ex_row_12] ex_state_noid))))"
proof -
  let ?run = "processChunk ex_env [ex_row_12] ex_state_noid"
  have "?run = (fst ?run, snd ?run)" by simp
  from docId_only_on_insert[OF this]
  have p: "prefix (map p_docId (products ex_state_noid)) (map p_docId (products (snd ?run)))"
    by blast
  have a: "map p_docId (products ex_state_noid) = [None]" by code_simp
  have b: "map p_docId (products (snd ?run)) = [None]" by code_simp
  have c: "map op_field_names (bulkWrites (drop (length (calls ex_state_noid)) (calls (snd ?run))))
      = [([''productID'', ''name'', ''description'', ''vendorId'', ''manufacturerId'',
           ''storefrontPriceVisibility'', ''variants'', ''options'', ''availability'',
           ''isFragile'', ''published'', ''isTaxable'', ''images'', ''categoryId'',
           ''dataPublic'', ''immutable'', ''deploymentId'', ''docType'', ''namespace'',
           ''companyId'', ''status'', ''info''], None)]" by code_simp
  have d: "map op_field_names (bulkWrites (calls ex_state_1))
      = [([''productID'', ''name'', ''description'', ''vendorId'', ''manufacturerId'',
           ''storefrontPriceVisibility'', ''variants'', ''options'', ''availability'',
           ''isFragile'', ''published'', ''isTaxable'', ''images'', ''categoryId'',
           ''dataPublic'', ''immutable'', ''deploymentId'', ''docType'', ''namespace'',
           ''companyId'', ''status'', ''info''], Some [''docId''])]" by code_simp
  from a b c d p show ?thesis by (intro conjI)
qed

section \<open>Currency and activity of introduced variants (C10)\<close>

text \<open>
  Claim C10. For every input row, the variant built by \<open>constructVariant\<close> has currency
  equal to the fixed string \<open>EUR\<close> and active equal to true, regardless of the row's
  contents; consequently every variant the pipeline ever introduces into a product
  carries currency \<open>EUR\<close> and \<open>active = true\<close>. The method returns such a variant from
  every row and state; and after every call of \<open>processChunk\<close>, from every state and
  whatever its result, every variant of every stored product has currency \<open>EUR\<close> and is
  active, or is a variant that a stored product had before the call, as it was or
  written back as the store encodes it (which changes neither currency nor activity).
\<close>

theorem variants_EUR_active:
  "(\<exists>v t. constructVariant E r s = (Inr v, t) \<and> v_currency v = ''EUR'' \<and> v_active v)
   \<and> (processChunk E chunk s = (res, s') \<longrightarrow>
        (\<forall>d' \<in> set (products s'). \<forall>v \<in> set (or_empty (p_variants d')).
           (v_currency v = ''EUR'' \<and> v_active v)
           \<or> (\<exists>d \<in> set (products s). \<exists>v0 \<in> set (or_empty (p_variants d)).
                 v = v0 \<or> v = stored_variant (omitUndefined E) v0)))"
proof (intro conjI impI)
  show "\<exists>v t. constructVariant E r s = (Inr v, t) \<and> v_currency v = ''EUR'' \<and> v_active v"
    by (simp add: constructVariant_eq variant_of_row_def)
next
  assume "processChunk E chunk s = (res, s')"
  then have "variants_from E s s'" by (rule processChunk_variants_from)
  then show "\<forall>d' \<in> set (products s'). \<forall>v \<in> set (or_empty (p_variants d')).
           (v_currency v = ''EUR'' \<and> v_active v)
           \<or> (\<exists>d \<in> set (products s). \<exists>v0 \<in> set (or_empty (p_variants d)).
                 v = v0 \<or> v = stored_variant (omitUndefined E) v0)"
    by (simp add: variants_from_def)
qed

theorem variants_EUR_active_witness:
  "products empty_state = []
   \<and> map v_sku (stored_variants (snd (processChunk ex_env [ex_row, ex_row_B] empty_state)) ''P1'')
       = [''I1C1Box10'', ''I2C1Box10'']
   \<and> map v_currency
        (stored_variants (snd (processChunk ex_env [ex_row, ex_row_B] empty_state)) ''P1'')
       = [''EUR'', ''EUR'']
   \<and> map v_active
        (stored_variants (snd (processChunk ex_env [ex_row, ex_row_B] empty_state)) ''P1'')
       = [True, True]"
proof -
  let ?run = "processChunk ex_env [ex_row, ex_row_B] empty_state"
  let ?vs = "stored_variants (snd ?run) ''P1''"
  have e: "products empty_state = []" by (simp add: empty_state_def)
  have k: "map v_sku ?vs = [''I1C1Box10'', ''I2C1Box10'']" by code_simp
  have run: "?run = (fst ?run, snd ?run)" by simp
  have mem: "v \<in> set ?vs \<Longrightarrow> \<exists>d' \<in> set (products (snd ?run)). v \<in> set (or_empty (p_variants d'))" for v
    by (auto simp: stored_variants_def)
  have "\<forall>d' \<in> set (products (snd ?run)). \<forall>v \<in> set (or_empty (p_variants d')).
           (v_currency v = ''EUR'' \<and> v_active v)
           \<or> (\<exists>d \<in> set (products empty_state). \<exists>v0 \<in> set (or_empty (p_variants d)).
                 v = v0 \<or> v = stored_variant (omitUndefined ex_env) v0)"
    by (rule mp[OF conjunct2[OF variants_EUR_active[of ex_env ex_row empty_state
                  "[ex_row, ex_row_B]" "fst ?run" "snd ?run"]] run])
  then have good: "v_currency v = ''EUR'' \<and> v_active v" if "v \<in> set ?vs" for v
    using mem[OF that] unfolding e by auto
  from arg_cong[OF k, of length] have "length ?vs = Suc (Suc 0)" by simp
  then obtain a b where ab: "?vs = [a, b]"
    by (auto simp: length_Suc_conv)
  with good[of a] good[of b] have "map v_currency ?vs = [''EUR'', ''EUR'']" "map v_active ?vs = [True, True]"
    by simp_all
  with e k show ?thesis by simp
qed


section \<open>Duplicate skus in a new product (C2)\<close>

text \<open>
  Claim C2 says that after creation of a product or a merge into one, the product's
  variant list has no two variants with the same sku, also when the chunk that creates
  the product holds several rows of it that yield the same sku. The merge path keeps one
  variant per sku (\<open>mergeVariants_distinct\<close> above). The creation path stores the
  variants of the group as they were built: a run on an empty store over the example row
  twice completes and leaves product \<open>P1\<close> with two variants of sku \<open>I1C1Box10\<close>.
\<close>

theorem new_product_duplicate_skus:
  "products empty_state = []
   \<and> fst (importProducts ex_env [ex_row, ex_row] End empty_state) = Resolved
   \<and> map v_sku (stored_variants (snd (importProducts ex_env [ex_row, ex_row] End empty_state)) ''P1'')
       = [''I1C1Box10'', ''I1C1Box10'']"
  by code_simp

section \<open>The caches of the reference entities (C4)\<close>

text \<open>
  Claim C4 says that the first resolution of a vendor or manufacturer records the id in
  the run's cache and that later resolutions of the same key are answered from the cache
  without a store lookup. The two caches are declared and never used: after the first
  resolution of vendor \<open>AcmeMed\<close> on the empty store the vendor cache is still empty, and
  the second resolution, which returns the same id, makes a \<open>findOne\<close> call of its own.
\<close>

theorem cache_never_used_counterexample:
  "vendorCache (snd (checkVendor ex_env (Some ''AcmeMed'') empty_state)) = []
   \<and> fst (checkVendor ex_env (Some ''AcmeMed'') empty_state) = Inr (Some ''x'')
   \<and> fst (checkVendor ex_env (Some ''AcmeMed'') (snd (checkVendor ex_env (Some ''AcmeMed'') empty_state)))
       = Inr (Some ''x'')
   \<and> calls (snd (checkVendor ex_env (Some ''AcmeMed'')
                    (snd (checkVendor ex_env (Some ''AcmeMed'') empty_state))))
       = [VendorFindOne (Some ''AcmeMed''),
          VendorSave \<lparr>vn_vendorId = Some ''x'', vn_siteSource = Some ''AcmeMed'',
                       vn_name = Some ''AcmeMed''\<rparr>,
          VendorFindOne (Some ''AcmeMed'')]"
  by code_simp

text \<open>
  Claim C4 as amended: every resolution of a vendor (keyed by site source) or of a
  manufacturer (keyed by manufacturerId) begins with a lookup in the persistent store
  and leaves both caches as they were, and so does every call of \<open>processChunk\<close>, which
  only ever extends the two collections at their end. Once a resolution of a key has
  returned, every resolution of the same key that starts later, in any state whose
  collection begins with the one the first resolution left, returns the same id, which
  its own lookup finds in the store, and creates no entity. Nothing is said of two
  resolutions that overlap in time.
\<close>

theorem resolution_queries_store:
  "(checkVendor E siteSource s = (r, s') \<longrightarrow>
      vendorCache s' = vendorCache s \<and> manufacturerCache s' = manufacturerCache s
      \<and> (\<exists>rest. calls s' = calls s @ VendorFindOne siteSource # rest))
   \<and> (ensureManufacturer E manufacturerId name s = (r, s') \<longrightarrow>
      vendorCache s' = vendorCache s \<and> manufacturerCache s' = manufacturerCache s
      \<and> (\<exists>rest. calls s' = calls s @ ManufacturerFindOne manufacturerId # rest))
   \<and> (processChunk E chunk s = (res, s') \<longrightarrow>
      vendorCache s' = vendorCache s \<and> manufacturerCache s' = manufacturerCache s
      \<and> prefix (vendors s) (vendors s') \<and> prefix (manufacturers s) (manufacturers s'))
   \<and> (checkVendor E siteSource s = (Inr i, t) \<and> prefix (vendors t) (vendors u)
        \<and> checkVendor E siteSource u = (Inr i', u') \<longrightarrow>
      i' = i \<and> vendors u' = vendors u \<and> calls u' = calls u @ [VendorFindOne siteSource])
   \<and> (ensureManufacturer E manufacturerId name s = (Inr i, t)
        \<and> prefix (manufacturers t) (manufacturers u)
        \<and> ensureManufacturer E manufacturerId name' u = (Inr i', u') \<longrightarrow>
      i' = i \<and> manufacturers u' = manufacturers u
      \<and> calls u' = calls u @ [ManufacturerFindOne manufacturerId])"
  using checkVendor_calls[of E siteSource s r s'] ensureManufacturer_calls[of E manufacturerId name s r s']
    processChunk_refs[of E chunk s res s']
    checkVendor_later[of E siteSource s i t u i' u']
    ensureManufacturer_later[of E manufacturerId name s i t u name' i' u']
  by blast

theorem resolution_queries_store_witness:
  "fst (checkVendor ex_env (Some ''AcmeMed'') empty_state) = Inr (Some ''x'')
   \<and> map vn_name (vendors (snd (checkVendor ex_env (Some ''Borel'')
                                   (snd (checkVendor ex_env (Some ''AcmeMed'') empty_state)))))
       = [Some ''AcmeMed'', Some ''Borel'']
   \<and> fst (checkVendor ex_env (Some ''AcmeMed'')
             (snd (checkVendor ex_env (Some ''Borel'')
                     (snd (checkVendor ex_env (Some ''AcmeMed'') empty_state)))))
       = Inr (Some ''x'')
   \<and> vendors (snd (checkVendor ex_env (Some ''AcmeMed'')
             (snd (checkVendor ex_env (Some ''Borel'')
                     (snd (checkVendor ex_env (Some ''AcmeMed'') empty_state))))))
       = vendors (snd (checkVendor ex_env (Some ''Borel'')
                     (snd (checkVendor ex_env (Some ''AcmeMed'') empty_state))))
   \<and> calls (snd (checkVendor ex_env (Some ''AcmeMed'')
             (snd (checkVendor ex_env (Some ''Borel'')
                     (snd (checkVendor ex_env (Some ''AcmeMed'') empty_state))))))
       = calls (snd (checkVendor ex_env (Some ''Borel'')
                     (snd (checkVendor ex_env (Some ''AcmeMed'') empty_state))))
           @ [VendorFindOne (Some ''AcmeMed'')]
   \<and> vendorCache (snd (checkVendor ex_env (Some ''AcmeMed'') empty_state)) = vendorCache empty_state"
proof -
  let ?k = "Some ''AcmeMed''"
  let ?s1 = "snd (checkVendor ex_env ?k empty_state)"
  let ?s2 = "snd (checkVendor ex_env (Some ''Borel'') ?s1)"
  let ?s3 = "snd (checkVendor ex_env ?k ?s2)"
  have f1: "fst (checkVendor ex_env ?k empty_state) = Inr (Some ''x'')" by code_simp
  have f3: "fst (checkVendor ex_env ?k ?s2) = Inr (Some ''x'')" by code_simp
  have n2: "map vn_name (vendors ?s2) = [Some ''AcmeMed'', Some ''Borel'']" by code_simp
  have v1: "vendors ?s1 = [\<lparr>vn_vendorId = Some ''x'', vn_siteSource = ?k, vn_name = ?k\<rparr>]"
    by code_simp
  have v2: "vendors ?s2 = [\<lparr>vn_vendorId = Some ''x'', vn_siteSource = ?k, vn_name = ?k\<rparr>,
                           \<lparr>vn_vendorId = Some ''xx'', vn_siteSource = Some ''Borel'',
                             vn_name = Some ''Borel''\<rparr>]"
    by code_simp
  have p: "prefix (vendors ?s1) (vendors ?s2)" unfolding v1 v2 by simp
  have h1: "checkVendor ex_env ?k empty_state = (Inr (Some ''x''), ?s1)"
    by (rule prod_eqI) (simp_all only: f1 fst_conv snd_conv)
  have h3: "checkVendor ex_env ?k ?s2 = (Inr (Some ''x''), ?s3)"
    by (rule prod_eqI) (simp_all only: f3 fst_conv snd_conv)
  note T = resolution_queries_store[where E = ex_env and siteSource = ?k and s = empty_state
             and r = "Inr (Some ''x'')" and s' = ?s1 and i = "Some ''x''" and t = ?s1
             and u = ?s2 and i' = "Some ''x''" and u' = ?s3]
  from T h1 have a: "vendorCache ?s1 = vendorCache empty_state" by blast
  from T h1 p h3 have b: "vendors ?s3 = vendors ?s2" "calls ?s3 = calls ?s2 @ [VendorFindOne ?k]"
    by blast+
  from f1 n2 f3 a b show ?thesis by (intro conjI)
qed

section \<open>Failures of chunks and of the stream (C8)\<close>

text \<open>
  Claim C8 says that any failure raised while processing a chunk is caught and logged,
  that the driver proceeds to the next chunk and the run is still reported as completed,
  and that only a failure reading the input stream propagates to the run's caller and
  aborts the whole run. The first part holds as far as the handlers run one after the
  other (\<open>driver_outcome\<close> above: unless the last row of the file fills a chunk, the
  promise is resolved whenever the parser ends, whatever the chunks did, and every chunk
  is attempted in file order from the state the one before left). A failure reading the
  input file does not reach the caller: the handler that logs \<open>Error reading CSV file\<close>
  and rejects the promise is registered on the parser, not on the file stream. When the
  file cannot be opened, the run on the empty store logs its start and nothing else, and
  its promise is neither resolved nor rejected.
\<close>

theorem file_error_not_propagated:
  "importProducts ex_env [] (FileError (StreamError ''ENOENT: no such file or directory'')) empty_state
     = (Uncaught (StreamError ''ENOENT: no such file or directory''),
        empty_state\<lparr>logged := [LogInfo ''Starting product import'']\<rparr>)"
  by (simp add: importProducts_def consume_def logA_def Let_def empty_state_def)

section \<open>Importing a file twice (C3)\<close>

text \<open>
  Claim C3 says that running the pipeline twice in succession on the same input file
  against the same store creates no duplicate vendors, manufacturers or products and no
  duplicate variants within any product, and leaves the store after the second run
  equal to the store after the first. The merge into a stored product keeps one variant
  per sku, and the second run of a file finds every product stored, so that it goes
  through the merge. The creation of a product does not merge: on the empty store, a
  file with the example row twice completes and leaves product \<open>P1\<close> with two variants
  of the one sku \<open>I1C1Box10\<close>; the second run of the same file completes as well, merges
  into the stored product and leaves it with the second of them only. One vendor and
  one manufacturer are stored after either run.
\<close>

theorem second_run_changes_store:
  "fst (importProducts ex_env [ex_row, ex_row] End empty_state) = Resolved
   \<and> map variant_digest
        (stored_variants (snd (importProducts ex_env [ex_row, ex_row] End empty_state)) ''P1'')
       = [(''I1C1Box10'', ''x'', Num (11 / 2), True, Str ''Sterile 4x4''),
          (''I1C1Box10'', ''xxxx'', Num (11 / 2), True, Str ''Sterile 4x4'')]
   \<and> fst (importProducts ex_env [ex_row, ex_row] End
             (snd (importProducts ex_env [ex_row, ex_row] End empty_state))) = Resolved
   \<and> map variant_digest
        (stored_variants
           (snd (importProducts ex_env [ex_row, ex_row] End
                   (snd (importProducts ex_env [ex_row, ex_row] End empty_state)))) ''P1'')
       = [(''I1C1Box10'', ''xxxx'', Num (11 / 2), True, Str ''Sterile 4x4'')]
   \<and> map vn_name
        (vendors (snd (importProducts ex_env [ex_row, ex_row] End
                         (snd (importProducts ex_env [ex_row, ex_row] End empty_state)))))
       = [Some ''AcmeMed'']
   \<and> map m_manufacturerId
        (manufacturers (snd (importProducts ex_env [ex_row, ex_row] End
                         (snd (importProducts ex_env [ex_row, ex_row] End empty_state)))))
       = [Some ''M1'']
   \<and> map p_productID
        (products (snd (importProducts ex_env [ex_row, ex_row] End
                         (snd (importProducts ex_env [ex_row, ex_row] End empty_state)))))
       = [Some ''P1'']"
  by code_simp

end
